theory Spec2Isabelle
  imports Main "HOL-Library.Word"
begin

section \<open>Data model\<close>

text \<open>
  The two tools work on numpy arrays of unsigned bytes. An array of shape
  \<open>(rows, cols, channels)\<close> is modelled by its shape and an accessor; the accessor is
  only ever read inside the shape. Python raises where numpy raises: every such place is a
  branch that returns an \<open>error\<close>.
\<close>

type_synonym u8 = "8 word"

datatype error =
  ValueError string
  | IndexError string
  | AssertionError string

record pixels =
  n_rows :: nat
  n_cols :: nat
  n_chan :: nat
  px :: "nat \<Rightarrow> nat \<Rightarrow> nat \<Rightarrow> u8"

text \<open>\<open>np.zeros((rows, cols, chan), dtype=np.uint8)\<close>.\<close>

definition zeros :: "nat \<Rightarrow> nat \<Rightarrow> nat \<Rightarrow> pixels" where
  "zeros r c ch = \<lparr>n_rows = r, n_cols = c, n_chan = ch, px = (\<lambda>i j k. 0)\<rparr>"

text \<open>
  An array written out as nested lists (rows of pixels of channels), as \<open>np.array\<close> reads
  a literal. It is used to write concrete buffers down.
\<close>

definition of_lists :: "u8 list list list \<Rightarrow> pixels" where
  "of_lists rows =
     \<lparr>n_rows = length rows,
      n_cols = (case rows of [] \<Rightarrow> 0 | r # _ \<Rightarrow> length r),
      n_chan = (case rows of [] \<Rightarrow> 0 | r # _ \<Rightarrow> (case r of [] \<Rightarrow> 0 | p # _ \<Rightarrow> length p)),
      px = (\<lambda>i j k. rows ! i ! j ! k)\<rparr>"

section \<open>PixelExtruder: \<open>tools/extrude_pixels.py\<close>\<close>

text \<open>
  \<open>steps = ((-1, 0), (0, -1), (1, 0), (0, 1))\<close>, read as \<open>(sx, sy)\<close>.
\<close>

definition steps :: "(int \<times> int) list" where
  "steps = [(-1, 0), (0, -1), (1, 0), (0, 1)]"

text \<open>
  The body of \<open>for sx, sy in steps\<close> (lines 55 to 63). The accumulator \<open>new_color\<close> is
  a \<open>float32\<close> vector of four entries and \<open>n_new_colors\<close> a counter. The vector only ever
  holds sums of at most four bytes, which \<open>float32\<close> represents exactly, so it is kept as
  a list of naturals. Adding a pixel of another channel count to the four entries does not
  broadcast.
\<close>

fun visit :: "pixels \<Rightarrow> nat \<Rightarrow> nat \<Rightarrow> int \<times> int \<Rightarrow> nat list \<times> nat \<Rightarrow> error + nat list \<times> nat" where
  "visit inp i j (sx, sy) (new_color, n_new_colors) =
     (let si = int i + sy; sj = int j + sx in
      if si < 0 \<or> si \<ge> int (n_rows inp) then Inr (new_color, n_new_colors)
      else if sj < 0 \<or> sj \<ge> int (n_cols inp) then Inr (new_color, n_new_colors)
      else if px inp (nat si) (nat sj) 3 > 0 then
        (if n_chan inp \<noteq> 4 then Inl (ValueError ''operands could not be broadcast together'')
         else Inr (map2 (+) new_color (map (\<lambda>c. unat (px inp (nat si) (nat sj) c)) [0..<4]),
                   n_new_colors + 1))
      else Inr (new_color, n_new_colors))"

fun visit_all ::
  "pixels \<Rightarrow> nat \<Rightarrow> nat \<Rightarrow> (int \<times> int) list \<Rightarrow> nat list \<times> nat \<Rightarrow> error + nat list \<times> nat" where
  "visit_all inp i j [] acc = Inr acc"
| "visit_all inp i j (s # ss) acc =
     (case visit inp i j s acc of
        Inl e \<Rightarrow> Inl e
      | Inr acc' \<Rightarrow> visit_all inp i j ss acc')"

text \<open>
  The body of the two pixel loops (lines 50 to 70). Reading channel 3 of a buffer with
  fewer channels raises. \<open>new_color /= n_new_colors\<close> followed by
  \<open>astype(np.uint8)\<close> truncates the quotient of a sum below 1024 by a count from 1 to 4:
  the \<open>float32\<close> quotient is within \<open>2^-14\<close> of the exact one, which is an integer or at
  least a third away from the next one, so the byte written is the integer quotient.
\<close>

definition pixel_body :: "pixels \<Rightarrow> nat \<Rightarrow> nat \<Rightarrow> pixels \<Rightarrow> error + pixels" where
  "pixel_body inp i j out_pixels =
     (if n_chan inp < 4 then Inl (IndexError ''index 3 is out of bounds for axis 2'')
      else if px inp i j 3 = 0 then
        (case visit_all inp i j steps ([0, 0, 0, 0], 0) of
           Inl e \<Rightarrow> Inl e
         | Inr (new_color, n_new_colors) \<Rightarrow>
             if n_new_colors = 0 then Inr out_pixels
             else Inr (out_pixels\<lparr>px := (\<lambda>i' j' c.
                    if i' = i \<and> j' = j \<and> c < 4 then of_nat (new_color ! c div n_new_colors)
                    else px out_pixels i' j' c)\<rparr>))
      else Inr out_pixels)"

fun cols_loop :: "pixels \<Rightarrow> nat \<Rightarrow> nat list \<Rightarrow> pixels \<Rightarrow> error + pixels" where
  "cols_loop inp i [] out_pixels = Inr out_pixels"
| "cols_loop inp i (j # js) out_pixels =
     (case pixel_body inp i j out_pixels of
        Inl e \<Rightarrow> Inl e
      | Inr out' \<Rightarrow> cols_loop inp i js out')"

fun rows_loop :: "pixels \<Rightarrow> nat list \<Rightarrow> pixels \<Rightarrow> error + pixels" where
  "rows_loop inp [] out_pixels = Inr out_pixels"
| "rows_loop inp (i # is) out_pixels =
     (case cols_loop inp i [0..<n_cols inp] out_pixels of
        Inl e \<Rightarrow> Inl e
      | Inr out' \<Rightarrow> rows_loop inp is out')"

text \<open>
  One file of \<open>main\<close> (lines 36 to 73): a buffer of three channels is saved as it is;
  otherwise \<open>out_pixels\<close> starts as a copy of the input and the loops run.
\<close>

definition extrude :: "pixels \<Rightarrow> error + pixels" where
  "extrude inp_pixels =
     (if n_chan inp_pixels = 3 then Inr inp_pixels
      else rows_loop inp_pixels [0..<n_rows inp_pixels] inp_pixels)"

text \<open>
  The words of the specification, for comparison: the in-bounds 4-connected neighbours of a
  pixel whose alpha is positive, and the mean of one channel over them.
\<close>

definition neighbours4 :: "pixels \<Rightarrow> nat \<Rightarrow> nat \<Rightarrow> (nat \<times> nat) list" where
  "neighbours4 inp i j =
     (if 0 < j then [(i, j - 1)] else []) @
     (if 0 < i then [(i - 1, j)] else []) @
     (if j + 1 < n_cols inp then [(i, j + 1)] else []) @
     (if i + 1 < n_rows inp then [(i + 1, j)] else [])"

definition opaque_neighbours :: "pixels \<Rightarrow> nat \<Rightarrow> nat \<Rightarrow> (nat \<times> nat) list" where
  "opaque_neighbours inp i j = filter (\<lambda>(si, sj). px inp si sj 3 > 0) (neighbours4 inp i j)"

definition channel_mean :: "pixels \<Rightarrow> (nat \<times> nat) list \<Rightarrow> nat \<Rightarrow> nat" where
  "channel_mean inp ns c = sum_list (map (\<lambda>(si, sj). unat (px inp si sj c)) ns) div length ns"

text \<open>
  For the proofs: the positions inside the buffer that a list of steps reaches from a pixel
  and whose alpha is positive, in the order of the steps; and the pixels that the pass
  rewrites.
\<close>

definition reached :: "pixels \<Rightarrow> nat \<Rightarrow> nat \<Rightarrow> (int \<times> int) list \<Rightarrow> (nat \<times> nat) list" where
  "reached inp i j ss =
     filter (\<lambda>(si, sj). px inp si sj 3 > 0)
       (concat (map (\<lambda>(sx, sy).
          if 0 \<le> int i + sy \<and> int i + sy < int (n_rows inp) \<and>
             0 \<le> int j + sx \<and> int j + sx < int (n_cols inp)
          then [(nat (int i + sy), nat (int j + sx))] else []) ss))"

definition extruded :: "pixels \<Rightarrow> nat \<Rightarrow> nat \<Rightarrow> bool" where
  "extruded inp i j = (px inp i j 3 = 0 \<and> opaque_neighbours inp i j \<noteq> [])"

section \<open>FrameExtractor: the first part of \<open>tools/import_aseprite_sheet.py\<close>\<close>

text \<open>
  A slice \<open>a[start : stop]\<close> of an axis of length \<open>n\<close> never raises: a negative bound
  counts from the end, and both bounds are clipped to the axis. The result is the pair of
  the clipped bounds; the slice is empty when the second is not above the first.
\<close>

definition slice_indices :: "nat \<Rightarrow> int \<Rightarrow> int \<Rightarrow> nat \<times> nat" where
  "slice_indices n start stop =
     (let clip = (\<lambda>k. if k < 0 then max (k + int n) 0 else min k (int n))
      in (nat (clip start), nat (clip stop)))"

text \<open>\<open>sheet[y : y + h, x : x + w, :]\<close>.\<close>

definition crop :: "pixels \<Rightarrow> int \<Rightarrow> int \<Rightarrow> int \<Rightarrow> int \<Rightarrow> pixels" where
  "crop sheet x y w h =
     (let (r0, r1) = slice_indices (n_rows sheet) y (y + h);
          (c0, c1) = slice_indices (n_cols sheet) x (x + w)
      in \<lparr>n_rows = r1 - r0, n_cols = c1 - c0, n_chan = n_chan sheet,
          px = (\<lambda>i j. px sheet (r0 + i) (c0 + j))\<rparr>)"

text \<open>
  The class \<open>Sprite\<close>. Its field \<open>tl\<close> is \<open>(x, y)\<close>; the packer only ever stores sums of
  naturals there. The properties \<open>h\<close>, \<open>w\<close>, \<open>tr\<close> and \<open>bl\<close> carry the prefix \<open>s_\<close> like the fields, and the fields of \<open>Mask\<close> the prefix \<open>m_\<close>.
\<close>

record sprite =
  s_name :: string
  s_frame_idx :: int
  s_image :: pixels
  s_tl :: "nat \<times> nat"

definition s_h :: "sprite \<Rightarrow> nat" where
  "s_h s = n_rows (s_image s)"

definition s_w :: "sprite \<Rightarrow> nat" where
  "s_w s = n_cols (s_image s)"

definition s_tr :: "sprite \<Rightarrow> nat \<times> nat" where
  "s_tr s = (fst (s_tl s) + s_w s, snd (s_tl s))"

definition s_bl :: "sprite \<Rightarrow> nat \<times> nat" where
  "s_bl s = (fst (s_tl s), snd (s_tl s) + s_h s)"

definition get_neighbor_tls :: "sprite \<Rightarrow> (nat \<times> nat) list" where
  "get_neighbor_tls s =
     (let bl = s_bl s; tr = s_tr s
      in [(fst bl, snd bl + 1), (fst tr + 1, snd tr)])"

text \<open>The dictionary that \<open>to_meta\<close> returns, for sprites and masks alike.\<close>

record rect_meta =
  meta_name :: string
  meta_x :: int
  meta_y :: int
  meta_w :: int
  meta_h :: int
  meta_frame_idx :: int

definition sprite_to_meta :: "sprite \<Rightarrow> rect_meta" where
  "sprite_to_meta s =
     (let (x, y) = s_tl s;
          x = int x + 1;
          y = int y + 1;
          w = int (s_w s); h = int (s_h s);
          w = w - 2;
          h = h - 2
      in \<lparr>meta_name = s_name s, meta_x = x, meta_y = y, meta_w = w, meta_h = h,
          meta_frame_idx = s_frame_idx s\<rparr>)"

text \<open>The class \<open>Mask\<close>.\<close>

record mask =
  m_name :: string
  m_frame_idx :: int
  m_tl :: "int \<times> int"
  m_w :: int
  m_h :: int

definition mask_to_meta :: "mask \<Rightarrow> rect_meta" where
  "mask_to_meta m =
     (let (x, y) = m_tl m
      in \<lparr>meta_name = m_name m, meta_x = x, meta_y = y, meta_w = m_w m, meta_h = m_h m,
          meta_frame_idx = m_frame_idx m\<rparr>)"

text \<open>
  \<open>ndarray.max\<close> and \<open>ndarray.argmax\<close> of a vector that is not empty: the greatest value, and
  the first index that holds it.
\<close>

definition amax :: "u8 list \<Rightarrow> u8" where
  "amax xs = Max (set xs)"

definition argmax :: "u8 list \<Rightarrow> nat" where
  "argmax xs = length (takeWhile (\<lambda>v. v \<noteq> amax xs) xs)"

text \<open>
  The mask branch (lines 157 to 185) on the cropped region. A reduction over an axis of
  length zero raises, and so does \<open>image.max()\<close> of an array with no element.
\<close>

definition zero_size :: error where
  "zero_size = ValueError ''zero-size array to reduction operation maximum which has no identity''"

definition mask_of_region :: "pixels \<Rightarrow> string \<Rightarrow> int \<Rightarrow> error + mask option" where
  "mask_of_region region sprite_name frame_idx =
     (if n_chan region = 0 then Inl zero_size
      else if n_rows region = 0 \<or> n_cols region = 0 then Inl zero_size
      else
        let image = (\<lambda>i j. amax (map (px region i j) [0..<n_chan region]));
            row = map (\<lambda>j. amax (map (\<lambda>i. image i j) [0..<n_rows region])) [0..<n_cols region];
            col = map (\<lambda>i. amax (map (\<lambda>j. image i j) [0..<n_cols region])) [0..<n_rows region]
        in
        if amax (concat (map (\<lambda>i. map (image i) [0..<n_cols region]) [0..<n_rows region])) > 0
        then
          let left_x = int (argmax row);
              top_y = int (argmax col);
              right_x = int (length row) - int (argmax (rev row)) - 1;
              bot_y = int (length col) - int (argmax (rev col)) - 1;
              bot_y = bot_y + 1;
              top_y = top_y + 1;
              w = right_x - left_x + 1;
              h = bot_y - top_y + 1
          in Inr (Some \<lparr>m_name = sprite_name, m_frame_idx = frame_idx,
                         m_tl = (left_x, top_y), m_w = w, m_h = h\<rparr>)
        else Inr None)"

text \<open>
  The words of the specification, for comparison: the tight bounding box of the values that
  are not zero (leftmost and rightmost column, topmost and bottommost row that hold one),
  with the two vertical bounds moved down by one.
\<close>

definition tight_box :: "pixels \<Rightarrow> string \<Rightarrow> int \<Rightarrow> mask option" where
  "tight_box region sprite_name frame_idx =
     (let image = (\<lambda>i j. amax (map (px region i j) [0..<n_chan region]));
          cols = filter (\<lambda>j. list_ex (\<lambda>i. image i j \<noteq> 0) [0..<n_rows region]) [0..<n_cols region];
          rows = filter (\<lambda>i. list_ex (\<lambda>j. image i j \<noteq> 0) [0..<n_cols region]) [0..<n_rows region]
      in if cols = [] then None
         else
           let left = int (hd cols); right = int (last cols);
               top = int (hd rows) + 1; bottom = int (last rows) + 1
           in Some \<lparr>m_name = sprite_name, m_frame_idx = frame_idx, m_tl = (left, top),
                     m_w = right - left + 1, m_h = bottom - top + 1\<rparr>)"

text \<open>
  One entry of \<open>frames\<close>, after \<open>name.split(".")\<close> and \<open>int(frame_idx)\<close> (lines 121 to 125
  and 138): splitting the file name and reading the manifest belong to the parser.
\<close>

record frame =
  frame_sprite_name :: string
  frame_layer_name :: string
  frame_tag :: string
  frame_frame_idx :: int
  frame_x :: int
  frame_y :: int
  frame_w :: int
  frame_h :: int

text \<open>
  The dictionaries \<open>sprites\<close> and \<open>masks\<close> keep the order in which their keys were first
  written. \<open>dict_update k f d0\<close> is \<open>d[k] = f(d[k])\<close> on a \<open>defaultdict\<close> whose default is
  \<open>d0\<close>.
\<close>

fun dict_update :: "'k \<Rightarrow> ('v \<Rightarrow> 'v) \<Rightarrow> 'v \<Rightarrow> ('k \<times> 'v) list \<Rightarrow> ('k \<times> 'v) list" where
  "dict_update k f d0 [] = [(k, f d0)]"
| "dict_update k f d0 ((k', v) # d) =
     (if k = k' then (k', f v) # d else (k', v) # dict_update k f d0 d)"

record extraction =
  sprites :: "(string \<times> sprite list) list"
  masks :: "(string \<times> (string \<times> (int \<times> mask) list) list) list"

definition invalid_layer :: "string \<Rightarrow> error" where
  "invalid_layer layer_name =
     ValueError (''Layer name: '' @ layer_name @ '' is not valid. '' @
       ''The layer name should be `sprite` (which represents the actual sprite) '' @
       ''or start with `mask_`.'')"

text \<open>The sprite branch (lines 143 to 154).\<close>

definition extract_sprite :: "pixels \<Rightarrow> string \<Rightarrow> int \<Rightarrow> int \<Rightarrow> int \<Rightarrow> int \<Rightarrow> int \<Rightarrow> sprite" where
  "extract_sprite sheet sprite_name frame_idx x y w h =
     (let x = x - 1;
          y = y - 1;
          w = w + 2;
          h = h + 2
      in \<lparr>s_name = sprite_name, s_frame_idx = frame_idx,
          s_image = crop sheet x y w h, s_tl = (0, 0)\<rparr>)"

text \<open>
  The body of \<open>for frame in frames\<close> (lines 121 to 189). \<open>re.sub(r"^mask_", "", _)\<close> on a
  name that starts with the prefix drops its first five characters.
\<close>

definition process_frame :: "pixels \<Rightarrow> frame \<Rightarrow> extraction \<Rightarrow> error + extraction" where
  "process_frame sheet f st =
     (let sprite_name =
            (if frame_tag f \<noteq> [] then frame_sprite_name f @ ''_'' @ frame_tag f
             else frame_sprite_name f);
          frame_idx = frame_frame_idx f;
          layer_name = frame_layer_name f;
          starts = (take 5 layer_name = ''mask_'');
          is_mask = starts
      in
      if \<not> starts \<and> layer_name \<noteq> ''sprite'' then Inl (invalid_layer layer_name)
      else
        let layer_name = (if starts then drop 5 layer_name else layer_name) in
        if layer_name = ''sprite'' then
          Inr (st\<lparr>sprites := dict_update sprite_name
                   (\<lambda>l. l @ [extract_sprite sheet sprite_name frame_idx
                                 (frame_x f) (frame_y f) (frame_w f) (frame_h f)])
                   [] (sprites st)\<rparr>)
        else if is_mask then
          (case mask_of_region (crop sheet (frame_x f) (frame_y f) (frame_w f) (frame_h f))
                  sprite_name frame_idx of
             Inl e \<Rightarrow> Inl e
           | Inr None \<Rightarrow> Inr st
           | Inr (Some m) \<Rightarrow>
               Inr (st\<lparr>masks := dict_update sprite_name
                        (dict_update layer_name (dict_update frame_idx (\<lambda>_. m) m) [])
                        [] (masks st)\<rparr>))
        else Inl (AssertionError (''Unhandled layer: '' @ layer_name)))"

fun process_frames :: "pixels \<Rightarrow> frame list \<Rightarrow> extraction \<Rightarrow> error + extraction" where
  "process_frames sheet [] st = Inr st"
| "process_frames sheet (f # fs) st =
     (case process_frame sheet f st of
        Inl e \<Rightarrow> Inl e
      | Inr st' \<Rightarrow> process_frames sheet fs st')"

text \<open>
  One manifest of the directory with its decoded sheet (lines 107 to 120), and the loop
  over the directory.
\<close>

record ase_file =
  meta_fp :: string
  file_sheet :: pixels
  layer_names :: "string list"
  file_frames :: "frame list"

definition process_file :: "ase_file \<Rightarrow> extraction \<Rightarrow> error + extraction" where
  "process_file a st =
     (if ''sprite'' \<notin> set (layer_names a)
      then Inl (ValueError (meta_fp a @ '' is missing the `sprite` layer''))
      else process_frames (file_sheet a) (file_frames a) st)"

fun process_files :: "ase_file list \<Rightarrow> extraction \<Rightarrow> error + extraction" where
  "process_files [] st = Inr st"
| "process_files (a # as) st =
     (case process_file a st of
        Inl e \<Rightarrow> Inl e
      | Inr st' \<Rightarrow> process_files as st')"

text \<open>
  For writing concrete inputs down: the entry of the file name \<open>nm.layer..0\<close> with the given
  rectangle, and a manifest \<open>a.json\<close> that lists the layer \<open>sprite\<close>.
\<close>

definition frame_of :: "string \<Rightarrow> string \<Rightarrow> int \<Rightarrow> int \<Rightarrow> int \<Rightarrow> int \<Rightarrow> frame" where
  "frame_of nm layer x y w h =
     \<lparr>frame_sprite_name = nm, frame_layer_name = layer, frame_tag = [], frame_frame_idx = 0,
      frame_x = x, frame_y = y, frame_w = w, frame_h = h\<rparr>"

definition file_of :: "pixels \<Rightarrow> frame list \<Rightarrow> ase_file" where
  "file_of sh fs =
     \<lparr>meta_fp = ''a.json'', file_sheet = sh, layer_names = [''sprite''], file_frames = fs\<rparr>"

section \<open>AtlasPacker: the second part of \<open>tools/import_aseprite_sheet.py\<close>\<close>

text \<open>
  The working sheet has shape \<open>(rows, cols, 5)\<close>. Its first four channels receive the pixels
  of the sprites (line 235) and are never read by the loop; the decisions are taken on the
  shape and on the last channel, the occupancy plane, which is what the model keeps. Of the
  assignment of line 235 the model keeps whether it raises.
\<close>

record canvas =
  shape0 :: nat
  shape1 :: nat
  occ :: "nat \<Rightarrow> nat \<Rightarrow> u8"

text \<open>
  \<open>sheet[min_y:max_y, min_x:max_x, -1].max()\<close>: the bounds, which are not negative, are
  clipped to the shape, and the maximum of an empty slice raises.
\<close>

definition region_max :: "canvas \<Rightarrow> nat \<Rightarrow> nat \<Rightarrow> nat \<Rightarrow> nat \<Rightarrow> error + u8" where
  "region_max sh min_y max_y min_x max_x =
     (let r0 = min min_y (shape0 sh); r1 = min max_y (shape0 sh);
          c0 = min min_x (shape1 sh); c1 = min max_x (shape1 sh)
      in if r1 \<le> r0 \<or> c1 \<le> c0 then Inl zero_size
         else Inr (amax (concat (map (\<lambda>i. map (occ sh i) [c0..<c1]) [r0..<r1]))))"

text \<open>
  \<open>for i, tl in enumerate(tls_to_try)\<close> (lines 205 to 215): the index of the first
  candidate that passes the test, or \<open>None\<close>. The conjunction is evaluated from the
  left, so the slice is only read when both comparisons hold.
\<close>

fun scan :: "canvas \<Rightarrow> sprite \<Rightarrow> (nat \<times> nat) list \<Rightarrow> nat \<Rightarrow> error + nat option" where
  "scan sh sp [] i = Inr None"
| "scan sh sp ((min_x, min_y) # tls) i =
     (let max_x = min_x + s_w sp;
          max_y = min_y + s_h sp
      in if shape1 sh > max_x \<and> shape0 sh > max_y then
           (case region_max sh min_y max_y min_x max_x of
              Inl e \<Rightarrow> Inl e
            | Inr m \<Rightarrow> if m = 0 then Inr (Some i) else scan sh sp tls (Suc i))
         else scan sh sp tls (Suc i))"

text \<open>Lines 218 to 227: the new sheet, with the old one in its top-left corner.\<close>

definition grow :: "canvas \<Rightarrow> sprite \<Rightarrow> canvas" where
  "grow sh sp =
     \<lparr>shape0 = shape0 sh + s_h sp, shape1 = shape1 sh + s_w sp,
      occ = (\<lambda>i j. if i < shape0 sh \<and> j < shape1 sh then occ sh i j else 0)\<rparr>"

text \<open>
  \<open>while best_tl_idx is None\<close> (lines 204 to 227). The loop need not end, so the function
  is partial: \<open>None\<close> is the run that never returns.
\<close>

partial_function (option) find_tl ::
  "canvas \<Rightarrow> (nat \<times> nat) list \<Rightarrow> sprite \<Rightarrow> (error + nat \<times> canvas) option" where
  "find_tl sh tls sp =
     (case scan sh sp tls 0 of
        Inl e \<Rightarrow> Some (Inl e)
      | Inr (Some best_tl_idx) \<Rightarrow> Some (Inr (best_tl_idx, sh))
      | Inr None \<Rightarrow> find_tl (grow sh sp) tls sp)"

declare find_tl.simps [code]

record packer =
  sheet :: canvas
  tls_to_try :: "(nat \<times> nat) list"
  placed :: "sprite list"

text \<open>
  numpy's rule for the assignment of an array to a slice, both of three dimensions: every
  extent of the array is that of the slice, or is 1 and is repeated.
\<close>

definition broadcasts :: "nat \<times> nat \<times> nat \<Rightarrow> nat \<times> nat \<times> nat \<Rightarrow> bool" where
  "broadcasts v s =
     (case (v, s) of
        ((h, w, c), (sh, sw, sc)) \<Rightarrow> (h = sh \<or> h = 1) \<and> (w = sw \<or> w = 1) \<and> (c = sc \<or> c = 1))"

text \<open>
  Lines 229 to 237. \<open>best_tl_idx\<close> comes from the scan and is an index of the list.
  Line 235 assigns the image of the sprite to the first four channels of the slice
  \<open>sheet[min_y:max_y, min_x:max_x]\<close>, whose bounds are clipped to the shape, and raises a
  \<open>ValueError\<close> when the image cannot be broadcast to it, as happens to an image of three
  channels, cut from a sheet without alpha; of numpy's message, which goes on with the two
  shapes, the model keeps the beginning. \<open>placed\<close> collects the sprites in the order in
  which their \<open>tl\<close> was assigned.
\<close>

definition place :: "packer \<Rightarrow> sprite \<Rightarrow> nat \<Rightarrow> canvas \<Rightarrow> error + packer" where
  "place st sp best_tl_idx sh =
     (let tl = tls_to_try st ! best_tl_idx;
          tls = take best_tl_idx (tls_to_try st) @ drop (Suc best_tl_idx) (tls_to_try st);
          sp = sp\<lparr>s_tl := tl\<rparr>;
          (min_x, min_y) = tl;
          max_x = min_x + s_w sp;
          max_y = min_y + s_h sp
      in if broadcasts (n_rows (s_image sp), n_cols (s_image sp), n_chan (s_image sp))
              (min max_y (shape0 sh) - min min_y (shape0 sh),
               min max_x (shape1 sh) - min min_x (shape1 sh), 4)
         then
           let sh = sh\<lparr>occ := (\<lambda>i j. if min_y \<le> i \<and> i < max_y \<and> min_x \<le> j \<and> j < max_x then 1
                                     else occ sh i j)\<rparr>
           in Inr \<lparr>sheet = sh, tls_to_try = tls @ get_neighbor_tls sp, placed = placed st @ [sp]\<rparr>
         else Inl (ValueError ''could not broadcast input array''))"

fun pack_loop :: "sprite list \<Rightarrow> packer \<Rightarrow> (error + packer) option" where
  "pack_loop [] st = Some (Inr st)"
| "pack_loop (sp # sps) st =
     (case find_tl (sheet st) (tls_to_try st) sp of
        None \<Rightarrow> None
      | Some (Inl e) \<Rightarrow> Some (Inl e)
      | Some (Inr (best_tl_idx, sh)) \<Rightarrow>
          (case place st sp best_tl_idx sh of
             Inl e \<Rightarrow> Some (Inl e)
           | Inr st' \<Rightarrow> pack_loop sps st'))"

text \<open>
  Lines 194 to 196: the indices of the sprites by descending \<open>image.size\<close>; Python's
  \<open>sorted\<close> is stable, and so is \<open>sort_key\<close>.
\<close>

definition image_size :: "sprite \<Rightarrow> nat" where
  "image_size s = n_rows (s_image s) * n_cols (s_image s) * n_chan (s_image s)"

definition inds :: "sprite list \<Rightarrow> nat list" where
  "inds flat_sprites =
     sort_key (\<lambda>i. - int (image_size (flat_sprites ! i))) [0..<length flat_sprites]"

text \<open>
  Lines 193 to 237. The loop of line 202 runs over \<open>flat_sprites\<close>; \<open>inds\<close> is computed
  and not read again.
\<close>

definition empty_canvas :: "nat \<Rightarrow> nat \<Rightarrow> canvas" where
  "empty_canvas r c = \<lparr>shape0 = r, shape1 = c, occ = (\<lambda>i j. 0)\<rparr>"

definition init_packer :: packer where
  "init_packer = \<lparr>sheet = empty_canvas 0 0, tls_to_try = [(0, 0)], placed = []\<rparr>"

definition pack :: "sprite list \<Rightarrow> (error + packer) option" where
  "pack flat_sprites = (let inds = inds flat_sprites in pack_loop flat_sprites init_packer)"

text \<open>
  What a run shows of the packer: \<open>[sheet_w, sheet_h]\<close> as line 244 writes it, and the
  name and \<open>tl\<close> of the sprites in the order in which they were placed.
\<close>

definition layout ::
  "(error + packer) option \<Rightarrow> ((nat \<times> nat) \<times> (string \<times> nat \<times> nat) list) option" where
  "layout r =
     (case r of
        Some (Inr st) \<Rightarrow>
          Some ((shape1 (sheet st), shape0 (sheet st)), map (\<lambda>s. (s_name s, s_tl s)) (placed st))
      | _ \<Rightarrow> None)"

text \<open>
  A sprite as the extraction leaves it, with an image of the given width and height, four
  channels and \<open>tl = (0, 0)\<close>; it is used to write concrete inputs of the packer down.
\<close>

definition plain_sprite :: "string \<Rightarrow> nat \<Rightarrow> nat \<Rightarrow> sprite" where
  "plain_sprite nm w h = \<lparr>s_name = nm, s_frame_idx = 0, s_image = zeros h w 4, s_tl = (0, 0)\<rparr>"

text \<open>
  The test of line 209 to 213 on one candidate, for a sprite of positive width and height:
  the footprint ends strictly before the right and the bottom edge of the sheet, and the
  occupancy plane is zero all over it.
\<close>

definition admits :: "canvas \<Rightarrow> sprite \<Rightarrow> nat \<times> nat \<Rightarrow> bool" where
  "admits sh sp c =
     (fst c + s_w sp < shape1 sh \<and> snd c + s_h sp < shape0 sh \<and>
      (\<forall>i\<in>{snd c..<snd c + s_h sp}. \<forall>j\<in>{fst c..<fst c + s_w sp}. occ sh i j = 0))"

text \<open>
  The words of the specification, for comparison: the footprint lies within the bounds of the
  canvas, its end on an edge included, and the occupancy plane is zero all over it.
\<close>

definition fits_within :: "canvas \<Rightarrow> sprite \<Rightarrow> nat \<times> nat \<Rightarrow> bool" where
  "fits_within sh sp c =
     (fst c + s_w sp \<le> shape1 sh \<and> snd c + s_h sp \<le> shape0 sh \<and>
      (\<forall>i\<in>{snd c..<snd c + s_h sp}. \<forall>j\<in>{fst c..<fst c + s_w sp}. occ sh i j = 0))"

text \<open>The sheet after \<open>k\<close> rounds of growth for one sprite.\<close>

fun grown :: "nat \<Rightarrow> canvas \<Rightarrow> sprite \<Rightarrow> canvas" where
  "grown 0 sh sp = sh"
| "grown (Suc k) sh sp = grown k (grow sh sp) sp"

text \<open>
  The placed footprint of a sprite, as a set of \<open>(x, y)\<close>, and the invariants of the loop of
  line 202: every placed footprint lies inside the sheet and is marked on the occupancy plane;
  the footprints are pairwise disjoint; some candidate lies to the right of every marked cell
  and not beyond the sheet; and the sheet is at most twice as wide (high) as the widths
  (heights) of the placed sprites together.
\<close>

definition footprint :: "sprite \<Rightarrow> (nat \<times> nat) set" where
  "footprint p =
     {fst (s_tl p)..<fst (s_tl p) + s_w p} \<times> {snd (s_tl p)..<snd (s_tl p) + s_h p}"

definition occupied :: "packer \<Rightarrow> bool" where
  "occupied st =
     (\<forall>p\<in>set (placed st). \<forall>(x, y)\<in>footprint p.
        x < shape1 (sheet st) \<and> y < shape0 (sheet st) \<and> occ (sheet st) y x = 1)"

definition disjoint_footprints :: "sprite list \<Rightarrow> bool" where
  "disjoint_footprints ps =
     (\<forall>a b. a < b \<and> b < length ps \<longrightarrow> footprint (ps ! a) \<inter> footprint (ps ! b) = {})"

definition free_column :: "packer \<Rightarrow> bool" where
  "free_column st =
     (\<exists>c\<in>set (tls_to_try st).
        fst c \<le> shape1 (sheet st) \<and> snd c \<le> shape0 (sheet st) \<and>
        (\<forall>i j. i < shape0 (sheet st) \<and> j < shape1 (sheet st) \<and> occ (sheet st) i j \<noteq> 0 \<longrightarrow> j < fst c))"

definition within_twice :: "packer \<Rightarrow> bool" where
  "within_twice st =
     (shape1 (sheet st) \<le> 2 * sum_list (map s_w (placed st)) \<and>
      shape0 (sheet st) \<le> 2 * sum_list (map s_h (placed st)))"

definition packer_inv :: "packer \<Rightarrow> bool" where
  "packer_inv st =
     (occupied st \<and> disjoint_footprints (placed st) \<and> free_column st \<and> within_twice st)"

section \<open>ManifestBuilder: the last part of \<open>tools/import_aseprite_sheet.py\<close>\<close>

record frame_meta =
  fm_sprite :: rect_meta
  fm_masks :: "(string \<times> rect_meta) list"

record sheet_meta =
  meta_size :: "nat \<times> nat"
  meta_frames :: "(string \<times> frame_meta list) list"

text \<open>
  Lines 247 to 264. The two loops visit the sprites in the order of \<open>flat_sprites\<close>, which
  is the order of \<open>placed\<close>; \<open>masks\<close> is a \<open>defaultdict\<close>, so a name without masks reads
  as an empty dictionary.
\<close>

definition masks_meta ::
  "(string \<times> (string \<times> (int \<times> mask) list) list) list \<Rightarrow> sprite \<Rightarrow> (string \<times> rect_meta) list" where
  "masks_meta ms sp =
     concat (map (\<lambda>(mask_name, by_idx).
                    (case map_of by_idx (s_frame_idx sp) of
                       None \<Rightarrow> []
                     | Some m \<Rightarrow> [(mask_name, mask_to_meta m)]))
                 (case map_of ms (s_name sp) of None \<Rightarrow> [] | Some d \<Rightarrow> d))"

definition build_meta ::
  "canvas \<Rightarrow> sprite list \<Rightarrow> (string \<times> (string \<times> (int \<times> mask) list) list) list \<Rightarrow> sheet_meta" where
  "build_meta sh sps ms =
     \<lparr>meta_size = (shape1 sh, shape0 sh),
      meta_frames =
        fold (\<lambda>sp fr. dict_update (s_name sp)
                (\<lambda>l. l @ [\<lparr>fm_sprite = sprite_to_meta sp, fm_masks = masks_meta ms sp\<rparr>]) [] fr)
             sps []\<rparr>"

text \<open>
  The whole script on the decoded files of the directory. The two output files are written
  by its last three lines, so a run that raises before them writes nothing.
\<close>

definition run :: "ase_file list \<Rightarrow> (error + sheet_meta) option" where
  "run files =
     (case process_files files \<lparr>sprites = [], masks = []\<rparr> of
        Inl e \<Rightarrow> Some (Inl e)
      | Inr ex \<Rightarrow>
          (case pack (concat (map snd (sprites ex))) of
             None \<Rightarrow> None
           | Some (Inl e) \<Rightarrow> Some (Inl e)
           | Some (Inr st) \<Rightarrow> Some (Inr (build_meta (sheet st) (placed st) (masks ex)))))"

section \<open>Properties of the pixel extruder\<close>

subsection \<open>The loops as one pointwise update\<close>

lemma reached_Nil: "reached inp i j [] = []"
  by (simp add: reached_def)

lemma reached_Cons:
  "reached inp i j ((sx, sy) # ss) =
     (if 0 \<le> int i + sy \<and> int i + sy < int (n_rows inp) \<and>
         0 \<le> int j + sx \<and> int j + sx < int (n_cols inp) \<and>
         px inp (nat (int i + sy)) (nat (int j + sx)) 3 > 0
      then [(nat (int i + sy), nat (int j + sx))] else []) @ reached inp i j ss"
  by (simp add: reached_def)

lemma reached_steps:
  "i < n_rows inp \<Longrightarrow> j < n_cols inp \<Longrightarrow> reached inp i j steps = opaque_neighbours inp i j"
  by (simp add: reached_def steps_def opaque_neighbours_def neighbours4_def nat_diff_distrib nat_add_distrib)

lemma visit_all_sums:
  "n_chan inp = 4 \<Longrightarrow> length acc = 4 \<Longrightarrow>
   visit_all inp i j ss (acc, n) =
     Inr (map (\<lambda>c. acc ! c + sum_list (map (\<lambda>(si, sj). unat (px inp si sj c)) (reached inp i j ss))) [0..<4],
          n + length (reached inp i j ss))"
proof (induction ss arbitrary: acc n)
  case Nil
  then show ?case
    by (simp add: reached_Nil list_eq_iff_nth_eq)
next
  case (Cons s ss)
  obtain sx sy where s: "s = (sx, sy)" by (cases s)
  show ?case
    using Cons.prems
    by (simp add: s reached_Cons Let_def Cons.IH not_le)
qed


lemma pixel_body_eq:
  assumes "n_chan inp = 4" "i < n_rows inp" "j < n_cols inp"
  shows "pixel_body inp i j out_pixels =
     Inr (if extruded inp i j
          then out_pixels\<lparr>px := (\<lambda>i' j' c.
                 if i' = i \<and> j' = j \<and> c < 4
                 then of_nat (channel_mean inp (opaque_neighbours inp i j) c)
                 else px out_pixels i' j' c)\<rparr>
          else out_pixels)"
proof -
  have v: "visit_all inp i j steps ([0, 0, 0, 0], 0) =
     Inr (map (\<lambda>c. [0, 0, 0, 0] ! c +
                 sum_list (map (\<lambda>(si, sj). unat (px inp si sj c)) (opaque_neighbours inp i j))) [0..<4],
          0 + length (opaque_neighbours inp i j))"
    using assms by (simp only: visit_all_sums [of inp "[0, 0, 0, 0]"] reached_steps length_Cons list.size)
  have z: "c < 4 \<Longrightarrow> [0, 0, 0, 0::nat] ! c = 0" for c
    by (cases c rule: nat.exhaust; simp add: nth_Cons split: nat.splits)
  show ?thesis
    using assms(1)
    by (simp add: pixel_body_def v extruded_def channel_mean_def z cong: if_cong)
qed


lemma cols_loop_eq:
  assumes "n_chan inp = 4" "i < n_rows inp"
  shows "\<forall>j\<in>set js. j < n_cols inp \<Longrightarrow>
   cols_loop inp i js out_pixels =
     Inr (out_pixels\<lparr>px := (\<lambda>i' j' c.
            if i' = i \<and> j' \<in> set js \<and> extruded inp i' j' \<and> c < 4
            then of_nat (channel_mean inp (opaque_neighbours inp i' j') c)
            else px out_pixels i' j' c)\<rparr>)"
proof (induction js arbitrary: out_pixels)
  case Nil
  then show ?case by simp
next
  case (Cons j js)
  show ?case
    using Cons.prems assms
    by (simp add: pixel_body_eq Cons.IH) (auto intro!: pixels.equality simp: fun_eq_iff)
qed

lemma rows_loop_eq:
  assumes "n_chan inp = 4"
  shows "\<forall>i\<in>set is. i < n_rows inp \<Longrightarrow>
   rows_loop inp is out_pixels =
     Inr (out_pixels\<lparr>px := (\<lambda>i' j' c.
            if i' \<in> set is \<and> j' < n_cols inp \<and> extruded inp i' j' \<and> c < 4
            then of_nat (channel_mean inp (opaque_neighbours inp i' j') c)
            else px out_pixels i' j' c)\<rparr>)"
proof (induction "is" arbitrary: out_pixels)
  case Nil
  then show ?case by simp
next
  case (Cons i "is")
  show ?case
    using Cons.prems assms
    by (simp add: cols_loop_eq Cons.IH) (auto intro!: pixels.equality simp: fun_eq_iff)
qed

lemma extrude_eq:
  assumes "n_chan inp = 4"
  shows "extrude inp =
     Inr (inp\<lparr>px := (\<lambda>i j c.
            if i < n_rows inp \<and> j < n_cols inp \<and> extruded inp i j \<and> c < 4
            then of_nat (channel_mean inp (opaque_neighbours inp i j) c)
            else px inp i j c)\<rparr>)"
  using assms by (simp add: extrude_def rows_loop_eq)

lemma channel_mean_byte: "channel_mean inp ns c < 256"
proof (cases "ns = []")
  case True
  then show ?thesis by (simp add: channel_mean_def)
next
  case False
  have "sum_list (map f ns) \<le> 255 * length ns" if "\<forall>x\<in>set ns. f x \<le> (255::nat)" for f
    using that by (induction ns) auto
  moreover have "unat (w :: u8) \<le> 255" for w
    using unsigned_less [of w, where 'a = nat] by simp
  ultimately have "sum_list (map (\<lambda>(si, sj). unat (px inp si sj c)) ns) \<le> 255 * length ns"
    by (auto simp: case_prod_beta)
  then have "sum_list (map (\<lambda>(si, sj). unat (px inp si sj c)) ns) div length ns \<le> 255"
    using div_le_mono [of _ "255 * length ns" "length ns"] False by simp
  then show ?thesis by (simp add: channel_mean_def)
qed

lemma neighbours4_near:
  "(si, sj) \<in> set (neighbours4 inp i j) \<Longrightarrow> i < n_rows inp \<Longrightarrow> j < n_cols inp \<Longrightarrow>
   si < n_rows inp \<and> sj < n_cols inp \<and> \<bar>int si - int i\<bar> + \<bar>int sj - int j\<bar> = 1"
  by (auto simp: neighbours4_def split: if_splits)


subsection \<open>One synchronous pass\<close>

text \<open>
  Claim C2. On a buffer of four channels the pass returns a buffer of the same shape, and at
  every pixel: the input is kept when its alpha is not zero; when its alpha is zero and some
  4-connected neighbour inside the buffer has positive alpha in the input, each of the four
  channels is the mean of those neighbours' input values of that channel, truncated, and it
  fits a byte; the input is kept when there is no such neighbour. In particular a pixel all
  of whose positions at distance at most one are transparent in the input stays transparent:
  nothing is read from the buffer being written.
\<close>

theorem extrude_single_pass:
  assumes "n_chan inp = 4"
  shows "\<exists>out. extrude inp = Inr out \<and>
     n_rows out = n_rows inp \<and> n_cols out = n_cols inp \<and> n_chan out = 4 \<and>
     (\<forall>i j c. i < n_rows inp \<and> j < n_cols inp \<and> c < 4 \<longrightarrow>
        (px inp i j 3 \<noteq> 0 \<longrightarrow> px out i j c = px inp i j c) \<and>
        (px inp i j 3 = 0 \<and> opaque_neighbours inp i j \<noteq> [] \<longrightarrow>
           unat (px out i j c) = channel_mean inp (opaque_neighbours inp i j) c) \<and>
        (px inp i j 3 = 0 \<and> opaque_neighbours inp i j = [] \<longrightarrow> px out i j c = px inp i j c)) \<and>
     (\<forall>i j. i < n_rows inp \<and> j < n_cols inp \<and>
        (\<forall>si sj. si < n_rows inp \<and> sj < n_cols inp \<and> \<bar>int si - int i\<bar> + \<bar>int sj - int j\<bar> \<le> 1 \<longrightarrow>
           px inp si sj 3 = 0) \<longrightarrow>
        px out i j 3 = 0)"
proof -
  define out where "out = inp\<lparr>px := (\<lambda>i j c.
            if i < n_rows inp \<and> j < n_cols inp \<and> extruded inp i j \<and> c < 4
            then of_nat (channel_mean inp (opaque_neighbours inp i j) c)
            else px inp i j c)\<rparr>"
  have e: "extrude inp = Inr out"
    using assms by (simp add: extrude_eq out_def)
  have shape: "n_rows out = n_rows inp" "n_cols out = n_cols inp" "n_chan out = 4"
    using assms by (simp_all add: out_def)
  have byte: "unat (of_nat (channel_mean inp ns c) :: u8) = channel_mean inp ns c" for ns c
    using channel_mean_byte [of inp ns c] by (simp add: unat_of_nat)
  have pointwise: "(px inp i j 3 \<noteq> 0 \<longrightarrow> px out i j c = px inp i j c) \<and>
        (px inp i j 3 = 0 \<and> opaque_neighbours inp i j \<noteq> [] \<longrightarrow>
           unat (px out i j c) = channel_mean inp (opaque_neighbours inp i j) c) \<and>
        (px inp i j 3 = 0 \<and> opaque_neighbours inp i j = [] \<longrightarrow> px out i j c = px inp i j c)"
    if "i < n_rows inp" "j < n_cols inp" "c < 4" for i j c
    using that by (simp add: out_def extruded_def byte)
  have quiet: "px out i j 3 = 0"
    if ij: "i < n_rows inp" "j < n_cols inp"
      and far: "\<forall>si sj. si < n_rows inp \<and> sj < n_cols inp \<and>
          \<bar>int si - int i\<bar> + \<bar>int sj - int j\<bar> \<le> 1 \<longrightarrow> px inp si sj 3 = 0" for i j
  proof -
    have self: "px inp i j 3 = 0"
      using far ij by simp
    have "px inp si sj 3 = 0" if "(si, sj) \<in> set (neighbours4 inp i j)" for si sj
      using neighbours4_near [OF that ij] far by simp
    then have "opaque_neighbours inp i j = []"
      by (auto simp: opaque_neighbours_def filter_empty_conv)
    then show ?thesis
      using self by (simp add: out_def extruded_def)
  qed
  show ?thesis
    using e shape pointwise quiet by blast
qed

theorem extrude_single_pass_witness:
  "\<exists>out. extrude (of_lists [[[9, 9, 9, 255], [0, 0, 0, 0], [0, 0, 0, 0], [0, 0, 0, 0], [7, 7, 7, 255]]]) = Inr out \<and>
     n_cols out = 5 \<and>
     px out 0 0 2 = 9 \<and> unat (px out 0 1 2) = 9 \<and> px out 0 2 3 = 0 \<and> unat (px out 0 3 3) = 255"
proof -
  define inp where "inp = of_lists [[[9, 9, 9, 255], [0, 0, 0, 0], [0, 0, 0, 0], [0, 0, 0, 0], [7, 7, 7, 255 :: u8]]]"
  have c: "n_chan inp = 4" "n_rows inp = 1" "n_cols inp = 5"
    by (simp_all add: inp_def of_lists_def)
  have a: "px inp 0 0 3 \<noteq> 0" "px inp 0 1 3 = 0" "px inp 0 2 3 = 0" "px inp 0 3 3 = 0" "px inp 0 0 2 = 9"
    by (simp_all add: inp_def of_lists_def)
  have n1: "opaque_neighbours inp 0 1 = [(0, 0)]"
    by (simp add: opaque_neighbours_def neighbours4_def inp_def of_lists_def)
  have n2: "opaque_neighbours inp 0 2 = []"
    by (simp add: opaque_neighbours_def neighbours4_def inp_def of_lists_def)
  have n3: "opaque_neighbours inp 0 3 = [(0, 4)]"
    by (simp add: opaque_neighbours_def neighbours4_def inp_def of_lists_def)
  have m: "channel_mean inp [(0, 0)] 2 = 9" "channel_mean inp [(0, 4)] 3 = 255"
    by (simp_all add: channel_mean_def inp_def of_lists_def)
  from extrude_single_pass [OF c(1)] obtain out where e: "extrude inp = Inr out"
    and s: "n_cols out = n_cols inp"
    and p: "\<And>i j c. i < n_rows inp \<and> j < n_cols inp \<and> c < 4 \<Longrightarrow>
        (px inp i j 3 \<noteq> 0 \<longrightarrow> px out i j c = px inp i j c) \<and>
        (px inp i j 3 = 0 \<and> opaque_neighbours inp i j \<noteq> [] \<longrightarrow>
           unat (px out i j c) = channel_mean inp (opaque_neighbours inp i j) c) \<and>
        (px inp i j 3 = 0 \<and> opaque_neighbours inp i j = [] \<longrightarrow> px out i j c = px inp i j c)"
    by blast
  have "px out 0 0 2 = 9" using p [of 0 0 2] a c by simp
  moreover have "unat (px out 0 1 2) = 9" using p [of 0 1 2] a c n1 m by simp
  moreover have "px out 0 2 3 = 0" using p [of 0 2 3] a c n2 by simp
  moreover have "unat (px out 0 3 3) = 255" using p [of 0 3 3] a c n3 m by simp
  moreover have "n_cols out = 5" using s c by simp
  ultimately have "extrude inp = Inr out \<and> n_cols out = 5 \<and>
     px out 0 0 2 = 9 \<and> unat (px out 0 1 2) = 9 \<and> px out 0 2 3 = 0 \<and> unat (px out 0 3 3) = 255"
    using e by simp
  then show ?thesis
    unfolding inp_def by (rule exI)
qed

section \<open>Properties of the frame extractor\<close>

subsection \<open>Maximum and first index of the maximum\<close>

lemma length_takeWhile_lt: "\<exists>x\<in>set xs. \<not> P x \<Longrightarrow> length (takeWhile P xs) < length xs"
  by (induction xs) auto

lemma takeWhile_upto_first: "x \<notin> set as \<Longrightarrow> takeWhile (\<lambda>v. v \<noteq> x) (as @ x # bs) = as"
  by (induction as) auto

lemma takeWhile_first_last:
  assumes "x \<in> set xs"
  shows "length (takeWhile (\<lambda>v. v \<noteq> x) xs) + length (takeWhile (\<lambda>v. v \<noteq> x) (rev xs)) < length xs"
proof -
  from assms obtain as bs where xs: "xs = as @ x # bs" and nin: "x \<notin> set as"
    by (meson split_list_first)
  have a: "takeWhile (\<lambda>v. v \<noteq> x) xs = as"
    using nin by (simp add: xs takeWhile_upto_first)
  have "length (takeWhile (\<lambda>v. v \<noteq> x) (rev bs @ x # rev as)) \<le> length (rev bs)"
    using length_takeWhile_le [of "\<lambda>v. v \<noteq> x" "rev bs"]
    by (cases "\<forall>v\<in>set (rev bs). v \<noteq> x") (auto simp: takeWhile_append)
  then show ?thesis
    by (simp add: a) (simp add: xs)
qed

lemma amax_in: "xs \<noteq> [] \<Longrightarrow> amax xs \<in> set xs"
  by (simp add: amax_def)

lemma argmax_first_last: "xs \<noteq> [] \<Longrightarrow> argmax xs + argmax (rev xs) < length xs"
  using takeWhile_first_last [of "amax xs" xs] amax_in [of xs]
  by (simp add: argmax_def amax_def)

lemma amax_zero: "xs \<noteq> [] \<Longrightarrow> (amax xs = 0) = (\<forall>v\<in>set xs. v = 0)"
proof -
  assume ne: "xs \<noteq> []"
  have "(Max (set xs) \<le> 0) = (\<forall>v\<in>set xs. v \<le> 0)"
    by (rule Max_le_iff) (use ne in auto)
  then show ?thesis
    by (simp add: amax_def word_le_0_iff)
qed

subsection \<open>Padding and un-padding of a sprite\<close>

lemma slice_indices_inside:
  "0 \<le> a \<Longrightarrow> a \<le> b \<Longrightarrow> b \<le> int n \<Longrightarrow> slice_indices n a b = (nat a, nat b)"
  by (simp add: slice_indices_def Let_def min_def)

text \<open>
  Claim C5, as amended. For an authored rectangle \<open>(x, y, w, h)\<close> that lies inside the sheet
  with one pixel to spare on every side, the sprite branch crops the rectangle expanded to
  \<open>(x - 1, y - 1, w + 2, h + 2)\<close>, so the image has width \<open>w + 2\<close> and height \<open>h + 2\<close>, and
  \<open>to_meta\<close> of the sprite placed at any \<open>tl\<close> gives back width \<open>w\<close> and height \<open>h\<close> at
  \<open>tl + (1, 1)\<close>.
\<close>

theorem sprite_round_trip:
  assumes "1 \<le> x" "1 \<le> y" "0 \<le> w" "0 \<le> h"
    and "x + w + 1 \<le> int (n_cols src)" "y + h + 1 \<le> int (n_rows src)"
  shows "s_w (extract_sprite src nm idx x y w h) = nat (w + 2) \<and>
         s_h (extract_sprite src nm idx x y w h) = nat (h + 2) \<and>
         px (s_image (extract_sprite src nm idx x y w h)) i j c =
           px src (nat (y - 1) + i) (nat (x - 1) + j) c \<and>
         sprite_to_meta ((extract_sprite src nm idx x y w h)\<lparr>s_tl := t\<rparr>) =
           \<lparr>meta_name = nm, meta_x = int (fst t) + 1, meta_y = int (snd t) + 1,
            meta_w = w, meta_h = h, meta_frame_idx = idx\<rparr>"
proof -
  have r: "slice_indices (n_rows src) (y - 1) (y - 1 + (h + 2)) = (nat (y - 1), nat (y - 1 + (h + 2)))"
    using assms by (intro slice_indices_inside) auto
  have c: "slice_indices (n_cols src) (x - 1) (x - 1 + (w + 2)) = (nat (x - 1), nat (x - 1 + (w + 2)))"
    using assms by (intro slice_indices_inside) auto
  have cr: "crop src (x - 1) (y - 1) (w + 2) (h + 2) =
     \<lparr>n_rows = nat (y - 1 + (h + 2)) - nat (y - 1), n_cols = nat (x - 1 + (w + 2)) - nat (x - 1),
      n_chan = n_chan src, px = (\<lambda>i j. px src (nat (y - 1) + i) (nat (x - 1) + j))\<rparr>"
    unfolding crop_def r c by simp
  have rows: "nat (y - 1 + (h + 2)) - nat (y - 1) = nat (h + 2)"
    using assms by linarith
  have cols: "nat (x - 1 + (w + 2)) - nat (x - 1) = nat (w + 2)"
    using assms by linarith
  define sp where "sp = extract_sprite src nm idx x y w h"
  have img: "s_image sp =
     \<lparr>n_rows = nat (h + 2), n_cols = nat (w + 2), n_chan = n_chan src,
      px = (\<lambda>i j. px src (nat (y - 1) + i) (nat (x - 1) + j))\<rparr>"
    unfolding sp_def extract_sprite_def Let_def cr rows cols by simp
  have rest: "s_name sp = nm" "s_frame_idx sp = idx"
    by (simp_all add: sp_def extract_sprite_def Let_def)
  have "s_w sp = nat (w + 2) \<and> s_h sp = nat (h + 2) \<and>
         px (s_image sp) i j c = px src (nat (y - 1) + i) (nat (x - 1) + j) c \<and>
         sprite_to_meta (sp\<lparr>s_tl := t\<rparr>) =
           \<lparr>meta_name = nm, meta_x = int (fst t) + 1, meta_y = int (snd t) + 1,
            meta_w = w, meta_h = h, meta_frame_idx = idx\<rparr>"
    using assms(3,4)
    by (cases t) (simp add: sprite_to_meta_def s_w_def s_h_def img rest)
  then show ?thesis
    by (simp only: sp_def)
qed

theorem sprite_round_trip_witness:
  "s_w (extract_sprite (zeros 10 10 4) ''a'' 0 1 1 8 8) = nat (8 + 2) \<and>
   s_h (extract_sprite (zeros 10 10 4) ''a'' 0 1 1 8 8) = nat (8 + 2) \<and>
   sprite_to_meta ((extract_sprite (zeros 10 10 4) ''a'' 0 1 1 8 8)\<lparr>s_tl := (0, 3)\<rparr>) =
     \<lparr>meta_name = ''a'', meta_x = int (fst (0, 3)) + 1, meta_y = int (snd (0 :: nat, 3 :: nat)) + 1,
      meta_w = 8, meta_h = 8, meta_frame_idx = 0\<rparr>"
  using sprite_round_trip [of 1 1 8 8 "zeros 10 10 4" "''a''" 0 0 0 0 "(0, 3)"]
  by (simp add: zeros_def)

text \<open>
  On a sheet of 10 by 10 the authored rectangle \<open>(1, 1, 9, 9)\<close>, which reaches the right and
  the bottom edge of the sheet, is expanded to \<open>(0, 0, 11, 11)\<close>, cropped to 10 by 10 by the
  slice, and emitted with width 8 and height 8.
\<close>

theorem sprite_round_trip_counterexample:
  "run [file_of (zeros 10 10 4) [frame_of ''a'' ''sprite'' 1 1 9 9]] =
     Some (Inr \<lparr>meta_size = (20, 20),
                 meta_frames =
                   [(''a'', [\<lparr>fm_sprite = \<lparr>meta_name = ''a'', meta_x = 1, meta_y = 1, meta_w = 8,
                                            meta_h = 8, meta_frame_idx = 0\<rparr>,
                             fm_masks = []\<rparr>])]\<rparr>)"
  by code_simp

subsection \<open>The box of a mask\<close>

text \<open>
  Claim C6. The claim describes the tight bounding box of the values that are not zero.
  \<open>argmax\<close> of a projection is the first index of its greatest value, not of its first
  value above zero: on a region of one row whose two pixels have intensities 128 and 255
  the branch returns the box of the second pixel alone, of width 1 at \<open>x = 1\<close>, where the
  tight box has width 2 at \<open>x = 0\<close>.
\<close>

theorem mask_box_first_max:
  "mask_of_region (of_lists [[[0, 0, 0, 128], [0, 0, 0, 255]]]) ''a'' 0 =
     Inr (Some \<lparr>m_name = ''a'', m_frame_idx = 0, m_tl = (1, 1), m_w = 1, m_h = 1\<rparr>) \<and>
   tight_box (of_lists [[[0, 0, 0, 128], [0, 0, 0, 255]]]) ''a'' 0 =
     Some \<lparr>m_name = ''a'', m_frame_idx = 0, m_tl = (0, 1), m_w = 2, m_h = 1\<rparr>"
  by code_simp

text \<open>
  The box that the branch returns is the tight one whenever the intensities of the region
  that are not zero are all equal, as they are when every pixel of the mask is fully opaque.
\<close>

lemma hd_filter_takeWhile:
  "\<exists>x\<in>set xs. P x \<Longrightarrow> hd (filter P xs) = xs ! length (takeWhile (\<lambda>x. \<not> P x) xs)"
  by (induction xs) auto

lemma first_in_range:
  assumes "\<exists>j<n. P j"
  shows "hd (filter P [0..<n]) = length (takeWhile (\<lambda>j. \<not> P j) [0..<n])"
proof -
  have e: "\<exists>x\<in>set [0..<n]. P x" using assms by auto
  have "length (takeWhile (\<lambda>j. \<not> P j) [0..<n]) < length [0..<n]"
    using e by (intro length_takeWhile_lt) simp
  then have "[0..<n] ! length (takeWhile (\<lambda>j. \<not> P j) [0..<n]) = length (takeWhile (\<lambda>j. \<not> P j) [0..<n])"
    by simp
  then show ?thesis
    using hd_filter_takeWhile [OF e] by simp
qed

lemma last_in_range:
  assumes "\<exists>j<n. P j"
  shows "int (last (filter P [0..<n])) =
     int n - int (length (takeWhile (\<lambda>j. \<not> P j) (rev [0..<n]))) - 1"
proof -
  have e: "\<exists>x\<in>set (rev [0..<n]). P x" using assms by auto
  have ne: "filter P [0..<n] \<noteq> []"
    using assms by (auto simp: filter_empty_conv)
  let ?k = "length (takeWhile (\<lambda>j. \<not> P j) (rev [0..<n]))"
  have "?k < length (rev [0..<n])"
    using e by (intro length_takeWhile_lt) simp
  then have k: "?k < n"
    by simp
  have "last (filter P [0..<n]) = hd (rev (filter P [0..<n]))"
    using ne by (simp add: hd_rev)
  also have "\<dots> = hd (filter P (rev [0..<n]))"
    by (simp add: rev_filter)
  also have "\<dots> = rev [0..<n] ! ?k"
    using e by (rule hd_filter_takeWhile)
  also have "\<dots> = n - Suc ?k"
    using k by (simp add: rev_nth)
  finally show ?thesis
    using k by simp
qed

lemma argmax_map:
  assumes "\<And>j. j \<in> set xs \<Longrightarrow> (f j \<noteq> amax (map f xs)) = (\<not> P j)"
  shows "argmax (map f xs) = length (takeWhile (\<lambda>j. \<not> P j) xs)"
proof -
  have "takeWhile ((\<lambda>v. v \<noteq> amax (map f xs)) \<circ> f) xs = takeWhile (\<lambda>j. \<not> P j) xs"
    by (rule takeWhile_cong) (use assms in auto)
  then show ?thesis
    by (simp add: argmax_def takeWhile_map)
qed


lemma projection_uniform:
  fixes g :: "nat \<Rightarrow> nat \<Rightarrow> u8"
  assumes n: "0 < n" and uni: "\<forall>a<m. \<forall>b<n. g a b = 0 \<or> g a b = v"
    and some: "\<exists>a<m. \<exists>b<n. g a b \<noteq> 0"
  shows "int (argmax (map (\<lambda>a. amax (map (g a) [0..<n])) [0..<m])) =
           int (hd (filter (\<lambda>a. list_ex (\<lambda>b. g a b \<noteq> 0) [0..<n]) [0..<m]))"
    and "int (length (map (\<lambda>a. amax (map (g a) [0..<n])) [0..<m])) -
           int (argmax (rev (map (\<lambda>a. amax (map (g a) [0..<n])) [0..<m]))) - 1 =
           int (last (filter (\<lambda>a. list_ex (\<lambda>b. g a b \<noteq> 0) [0..<n]) [0..<m]))"
proof -
  let ?f = "\<lambda>a. amax (map (g a) [0..<n])"
  let ?P = "\<lambda>a. list_ex (\<lambda>b. g a b \<noteq> 0) [0..<n]"
  from some obtain a0 b0 where ab: "a0 < m" "b0 < n" "g a0 b0 \<noteq> 0" by blast
  then have v: "v \<noteq> 0" "g a0 b0 = v" using uni by auto
  have P: "?P a = (\<exists>b<n. g a b \<noteq> 0)" for a
    by (auto simp: list_ex_iff)
  have zero: "(?f a = 0) = (\<not> ?P a)" for a
    using n by (subst amax_zero) (auto simp: P)
  have two: "?f a = 0 \<or> ?f a = v" if "a < m" for a
  proof -
    have "?f a \<in> set (map (g a) [0..<n])"
      using n by (intro amax_in) simp
    then obtain b where "b < n" "?f a = g a b" by auto
    then show ?thesis using uni that by metis
  qed
  have f: "(?f a \<noteq> v) = (\<not> ?P a)" if "a < m" for a
    using two [OF that] zero [of a] v(1) by auto
  have m: "0 < m" using ab by simp
  have top: "amax (map ?f xs) = v" if "set xs = {0..<m}" for xs
  proof -
    have ne: "map ?f xs \<noteq> []" using that m by auto
    have "amax (map ?f xs) \<in> set (map ?f xs)"
      using ne by (rule amax_in)
    then obtain a where a: "a \<in> set xs" "amax (map ?f xs) = ?f a"
      by auto
    have "a < m" using a(1) unfolding that by simp
    then have "amax (map ?f xs) = 0 \<or> amax (map ?f xs) = v"
      using two [of a] a(2) by simp
    moreover have "amax (map ?f xs) \<noteq> 0"
    proof
      assume "amax (map ?f xs) = 0"
      moreover have "a0 \<in> set xs" unfolding that using ab(1) by simp
      ultimately have "?f a0 = 0"
        using amax_zero [OF ne] by auto
      then show False using zero [of a0] ab by (auto simp: P)
    qed
    ultimately show ?thesis by simp
  qed
  have ex: "\<exists>a<m. ?P a" using ab by (auto simp: P)
  have "argmax (map ?f [0..<m]) = length (takeWhile (\<lambda>a. \<not> ?P a) [0..<m])"
    by (rule argmax_map) (use f top [of "[0..<m]"] in auto)
  then show "int (argmax (map ?f [0..<m])) = int (hd (filter ?P [0..<m]))"
    using first_in_range [of m ?P, OF ex] by simp
  have "argmax (map ?f (rev [0..<m])) = length (takeWhile (\<lambda>a. \<not> ?P a) (rev [0..<m]))"
    by (rule argmax_map) (use f top [of "rev [0..<m]"] in auto)
  then show "int (length (map ?f [0..<m])) - int (argmax (rev (map ?f [0..<m]))) - 1 =
      int (last (filter ?P [0..<m]))"
    using last_in_range [of m ?P, OF ex] by (simp add: rev_map)
qed


lemma mask_box_tight_when_uniform:
  assumes pos: "0 < n_chan region" "0 < n_rows region" "0 < n_cols region"
    and uni: "\<forall>i<n_rows region. \<forall>j<n_cols region.
        amax (map (px region i j) [0..<n_chan region]) = 0 \<or>
        amax (map (px region i j) [0..<n_chan region]) = v"
  shows "mask_of_region region nm idx = Inr (tight_box region nm idx)"
proof -
  define image where "image = (\<lambda>i j. amax (map (px region i j) [0..<n_chan region]))"
  let ?R = "n_rows region" and ?C = "n_cols region"
  let ?all = "concat (map (\<lambda>i. map (image i) [0..<?C]) [0..<?R])"
  let ?row = "map (\<lambda>j. amax (map (\<lambda>i. image i j) [0..<?R])) [0..<?C]"
  let ?col = "map (\<lambda>i. amax (map (\<lambda>j. image i j) [0..<?C])) [0..<?R]"
  let ?cols = "filter (\<lambda>j. list_ex (\<lambda>i. image i j \<noteq> 0) [0..<?R]) [0..<?C]"
  let ?rows = "filter (\<lambda>i. list_ex (\<lambda>j. image i j \<noteq> 0) [0..<?C]) [0..<?R]"
  have m: "mask_of_region region nm idx =
     (if amax ?all > 0
      then Inr (Some \<lparr>m_name = nm, m_frame_idx = idx,
             m_tl = (int (argmax ?row), int (argmax ?col) + 1),
             m_w = int (length ?row) - int (argmax (rev ?row)) - 1 - int (argmax ?row) + 1,
             m_h = int (length ?col) - int (argmax (rev ?col)) - 1 + 1 - (int (argmax ?col) + 1) + 1\<rparr>)
      else Inr None)"
    using pos unfolding mask_of_region_def Let_def image_def by simp
  have t: "tight_box region nm idx =
     (if ?cols = [] then None
      else Some \<lparr>m_name = nm, m_frame_idx = idx, m_tl = (int (hd ?cols), int (hd ?rows) + 1),
             m_w = int (last ?cols) - int (hd ?cols) + 1,
             m_h = int (last ?rows) + 1 - (int (hd ?rows) + 1) + 1\<rparr>)"
    unfolding tight_box_def Let_def image_def by simp
  have ne: "?all \<noteq> []"
    using pos by (auto simp: concat_eq_Nil_conv intro!: bexI [of _ 0])
  have all0: "(amax ?all = 0) = (\<forall>i<?R. \<forall>j<?C. image i j = 0)"
    by (subst amax_zero [OF ne]) auto
  have cols0: "(?cols = []) = (\<forall>i<?R. \<forall>j<?C. image i j = 0)"
    by (auto simp: filter_empty_conv list_ex_iff)
  show ?thesis
  proof (cases "\<forall>i<?R. \<forall>j<?C. image i j = 0")
    case True
    then show ?thesis
      using all0 cols0 by (simp only: m t) simp
  next
    case False
    then have some: "\<exists>i<?R. \<exists>j<?C. image i j \<noteq> 0" by blast
    then have some': "\<exists>j<?C. \<exists>i<?R. image i j \<noteq> 0" by blast
    have u1: "\<forall>i<?R. \<forall>j<?C. image i j = 0 \<or> image i j = v"
      using uni by (simp add: image_def)
    then have u2: "\<forall>j<?C. \<forall>i<?R. image i j = 0 \<or> image i j = v" by blast
    note c = projection_uniform [of ?R ?C "\<lambda>j i. image i j" v, OF pos(2) u2 some']
    note r = projection_uniform [of ?C ?R image v, OF pos(3) u1 some]
    have "amax ?all \<noteq> 0" using all0 False by simp
    then have g: "amax ?all > 0" by (simp add: word_gt_0)
    have n: "?cols \<noteq> []" using cols0 False by simp
    show ?thesis
      unfolding m t using g n by (simp only: c r if_True if_False) 
  qed
qed

subsection \<open>Masks are never degenerate\<close>

text \<open>
  Claim C10. Every \<open>Mask\<close> that the mask branch produces has width at least 1, height at
  least 1 and a top coordinate at least 1, because the last index of the maximum is not
  before the first one and the top bound is shifted by one. A region whose values are all
  zero produces no \<open>Mask\<close> at all: the branch returns \<open>None\<close> (or raises on an empty
  region), never a record of size zero.
\<close>

theorem mask_never_degenerate:
  "(mask_of_region region sprite_name frame_idx = Inr (Some m) \<longrightarrow>
      1 \<le> m_w m \<and> 1 \<le> m_h m \<and> 1 \<le> snd (m_tl m)) \<and>
   ((\<forall>i j c. i < n_rows region \<and> j < n_cols region \<and> c < n_chan region \<longrightarrow> px region i j c = 0) \<longrightarrow>
      mask_of_region region sprite_name frame_idx \<noteq> Inr (Some m))"
proof (intro conjI impI)
  assume r: "mask_of_region region sprite_name frame_idx = Inr (Some m)"
  then have ne: "0 < n_rows region" "0 < n_cols region"
    by (auto simp: mask_of_region_def split: if_splits)
  define image where "image = (\<lambda>i j. amax (map (px region i j) [0..<n_chan region]))"
  define row where "row = map (\<lambda>j. amax (map (\<lambda>i. image i j) [0..<n_rows region])) [0..<n_cols region]"
  define col where "col = map (\<lambda>i. amax (map (\<lambda>j. image i j) [0..<n_cols region])) [0..<n_rows region]"
  have row: "argmax row + argmax (rev row) < length row"
    using ne by (intro argmax_first_last) (simp add: row_def)
  have col: "argmax col + argmax (rev col) < length col"
    using ne by (intro argmax_first_last) (simp add: col_def)
  from r have w: "m_w m = int (length row) - int (argmax (rev row)) - 1 - int (argmax row) + 1"
    by (auto simp: mask_of_region_def Let_def image_def row_def col_def split: if_splits)
  from r have h: "m_h m = int (length col) - int (argmax (rev col)) - 1 + 1 - (int (argmax col) + 1) + 1"
    by (auto simp: mask_of_region_def Let_def image_def row_def col_def split: if_splits)
  from r have t: "snd (m_tl m) = int (argmax col) + 1"
    by (auto simp: mask_of_region_def Let_def image_def row_def col_def split: if_splits)
  show "1 \<le> m_w m" using row by (simp add: w)
  show "1 \<le> m_h m" using col by (simp add: h)
  show "1 \<le> snd (m_tl m)" by (simp add: t)
next
  assume z: "\<forall>i j c. i < n_rows region \<and> j < n_cols region \<and> c < n_chan region \<longrightarrow> px region i j c = 0"
  show "mask_of_region region sprite_name frame_idx \<noteq> Inr (Some m)"
  proof (cases "n_chan region = 0 \<or> n_rows region = 0 \<or> n_cols region = 0")
    case True
    then show ?thesis by (auto simp: mask_of_region_def)
  next
    case False
    then have pos: "0 < n_chan region" "0 < n_rows region" "0 < n_cols region" by auto
    have im: "amax (map (px region i j) [0..<n_chan region]) = 0"
      if "i < n_rows region" "j < n_cols region" for i j
      using that z pos by (subst amax_zero) auto
    have "amax (concat (map (\<lambda>i. map (\<lambda>j. amax (map (px region i j) [0..<n_chan region]))
             [0..<n_cols region]) [0..<n_rows region])) = 0"
      using pos im by (subst amax_zero) auto
    then show ?thesis
      using pos by (simp add: mask_of_region_def Let_def)
  qed
qed

theorem mask_never_degenerate_witness:
  "1 \<le> m_w \<lparr>m_name = ''a'', m_frame_idx = 0, m_tl = (1, 1), m_w = 1, m_h = 1\<rparr> \<and>
   1 \<le> m_h \<lparr>m_name = ''a'', m_frame_idx = 0, m_tl = (1, 1), m_w = 1, m_h = 1\<rparr> \<and>
   1 \<le> snd (m_tl \<lparr>m_name = ''a'', m_frame_idx = 0, m_tl = (1, 1), m_w = 1, m_h = 1\<rparr>) \<and>
   mask_of_region (of_lists [[[0, 0, 0, 128], [0, 0, 0, 255]]]) ''a'' 0 =
     Inr (Some \<lparr>m_name = ''a'', m_frame_idx = 0, m_tl = (1, 1), m_w = 1, m_h = 1\<rparr>) \<and>
   mask_of_region (zeros 2 2 4) ''a'' 0 \<noteq>
     Inr (Some \<lparr>m_name = ''a'', m_frame_idx = 0, m_tl = (1, 1), m_w = 1, m_h = 1\<rparr>)"
proof -
  have e: "mask_of_region (of_lists [[[0, 0, 0, 128], [0, 0, 0, 255]]]) ''a'' 0 =
     Inr (Some \<lparr>m_name = ''a'', m_frame_idx = 0, m_tl = (1, 1), m_w = 1, m_h = 1\<rparr>)"
    by code_simp
  have z: "\<forall>i j c. i < n_rows (zeros 2 2 4) \<and> j < n_cols (zeros 2 2 4) \<and> c < n_chan (zeros 2 2 4)
     \<longrightarrow> px (zeros 2 2 4) i j c = 0"
    by (simp add: zeros_def)
  show ?thesis
    using mask_never_degenerate [of "of_lists [[[0, 0, 0, 128], [0, 0, 0, 255]]]" "''a''" 0
        "\<lparr>m_name = ''a'', m_frame_idx = 0, m_tl = (1, 1), m_w = 1, m_h = 1\<rparr>"]
      mask_never_degenerate [of "zeros 2 2 4" "''a''" 0
        "\<lparr>m_name = ''a'', m_frame_idx = 0, m_tl = (1, 1), m_w = 1, m_h = 1\<rparr>"] e z
    by simp
qed


subsection \<open>A layer that is neither the sprite layer nor a mask layer\<close>









section \<open>Properties of the packer\<close>

subsection \<open>Order of placement\<close>

text \<open>
  Claim C3. The claim has the sprites placed by descending area. The sorted indices are
  computed and never used: for a sprite of 2 by 2 extracted before one of 4 by 4 the sorted
  order is \<open>[1, 0]\<close>, and the loop still places the small sprite first, at \<open>(0, 0)\<close>.
\<close>

theorem pack_order_unsorted:
  "inds [plain_sprite ''small'' 2 2, plain_sprite ''big'' 4 4] = [1, 0] \<and>
   layout (pack [plain_sprite ''small'' 2 2, plain_sprite ''big'' 4 4]) =
     Some ((8, 8), [(''small'', 0, 0), (''big'', 0, 3)])"
  by code_simp

subsection \<open>The scan of the candidates and the growth of the sheet\<close>

lemma region_max_empty:
  "max_y \<le> min_y \<or> max_x \<le> min_x \<Longrightarrow> region_max sh min_y max_y min_x max_x = Inl zero_size"
  by (auto simp: region_max_def Let_def min_def)

lemma region_max_inside:
  assumes "min_y < max_y" "min_x < max_x" "max_y \<le> shape0 sh" "max_x \<le> shape1 sh"
  shows "\<exists>m. region_max sh min_y max_y min_x max_x = Inr m \<and>
             (m = 0) = (\<forall>i\<in>{min_y..<max_y}. \<forall>j\<in>{min_x..<max_x}. occ sh i j = 0)"
proof -
  let ?xs = "concat (map (\<lambda>i. map (occ sh i) [min_x..<max_x]) [min_y..<max_y])"
  have ne: "?xs \<noteq> []"
    using assms by (auto simp: concat_eq_Nil_conv intro!: bexI [of _ min_y])
  have r: "region_max sh min_y max_y min_x max_x = Inr (amax ?xs)"
    using assms by (simp add: region_max_def Let_def min_def)
  have "(amax ?xs = 0) = (\<forall>i\<in>{min_y..<max_y}. \<forall>j\<in>{min_x..<max_x}. occ sh i j = 0)"
    by (subst amax_zero [OF ne]) auto
  then show ?thesis
    using r by simp
qed

lemma scan_positive:
  assumes "0 < s_w sp" "0 < s_h sp"
  shows "scan sh sp tls n =
     Inr (if \<exists>c\<in>set tls. admits sh sp c
          then Some (n + length (takeWhile (\<lambda>c. \<not> admits sh sp c) tls)) else None)"
proof (induction tls arbitrary: n)
  case Nil
  then show ?case by simp
next
  case (Cons c tls)
  obtain min_x min_y where c: "c = (min_x, min_y)" by (cases c)
  show ?case
  proof (cases "shape1 sh > min_x + s_w sp \<and> shape0 sh > min_y + s_h sp")
    case False
    then have na: "\<not> admits sh sp c" by (auto simp: admits_def c)
    have "scan sh sp (c # tls) n = scan sh sp tls (Suc n)"
      using False by (auto simp: c Let_def)
    then show ?thesis
      using na by (simp add: Cons.IH)
  next
    case True
    then obtain m where m: "region_max sh min_y (min_y + s_h sp) min_x (min_x + s_w sp) = Inr m"
      "(m = 0) = (\<forall>i\<in>{min_y..<min_y + s_h sp}. \<forall>j\<in>{min_x..<min_x + s_w sp}. occ sh i j = 0)"
      using region_max_inside [of min_y "min_y + s_h sp" min_x "min_x + s_w sp" sh] assms by auto
    have a: "admits sh sp c = (m = 0)"
      using True m(2) by (simp add: admits_def c)
    have "scan sh sp (c # tls) n = (if m = 0 then Inr (Some n) else scan sh sp tls (Suc n))"
      using True by (simp add: c Let_def m(1))
    then show ?thesis
      by (simp add: Cons.IH a)
  qed
qed

lemma scan_Some_positive:
  "scan sh sp tls n = Inr (Some i) \<Longrightarrow> 0 < s_w sp \<and> 0 < s_h sp"
proof (induction tls arbitrary: n)
  case Nil
  then show ?case by simp
next
  case (Cons c tls)
  obtain min_x min_y where c: "c = (min_x, min_y)" by (cases c)
  show ?case
  proof (cases "0 < s_w sp \<and> 0 < s_h sp")
    case True
    then show ?thesis by simp
  next
    case False
    then have "region_max sh min_y (min_y + s_h sp) min_x (min_x + s_w sp) = Inl zero_size"
      by (intro region_max_empty) auto
    then show ?thesis
      using Cons.prems Cons.IH by (auto simp: c Let_def split: if_splits)
  qed
qed

lemma scan_Some:
  assumes "scan sh sp tls 0 = Inr (Some i)"
  shows "i < length tls \<and> admits sh sp (tls ! i) \<and> (\<forall>k<i. \<not> admits sh sp (tls ! k)) \<and>
         0 < s_w sp \<and> 0 < s_h sp"
proof -
  have pos: "0 < s_w sp" "0 < s_h sp"
    using scan_Some_positive [OF assms] by auto
  let ?P = "\<lambda>c. \<not> admits sh sp c"
  from assms have ex: "\<exists>c\<in>set tls. admits sh sp c" and i: "i = length (takeWhile ?P tls)"
    by (auto simp: scan_positive [OF pos] split: if_splits)
  have lt: "i < length tls"
    unfolding i using ex by (intro length_takeWhile_lt) simp
  have "\<not> ?P (tls ! i)"
    unfolding i using lt [unfolded i] by (rule nth_length_takeWhile)
  moreover have "?P (tls ! k)" if "k < i" for k
  proof -
    have "takeWhile ?P tls ! k = tls ! k"
      using that unfolding i by (rule takeWhile_nth)
    moreover have "takeWhile ?P tls ! k \<in> set (takeWhile ?P tls)"
      using that unfolding i by (rule nth_mem)
    ultimately show ?thesis
      using set_takeWhileD [of "tls ! k" ?P tls] by simp
  qed
  ultimately show ?thesis
    using lt pos by simp
qed

lemma find_tl_found: "scan sh sp tls 0 = Inr (Some i) \<Longrightarrow> find_tl sh tls sp = Some (Inr (i, sh))"
  by (subst find_tl.simps) simp

lemma find_tl_grow: "scan sh sp tls 0 = Inr None \<Longrightarrow> find_tl sh tls sp = find_tl (grow sh sp) tls sp"
  by (subst find_tl.simps) simp

lemma find_tl_failed: "scan sh sp tls 0 = Inl e \<Longrightarrow> find_tl sh tls sp = Some (Inl e)"
  by (subst find_tl.simps) simp

lemma find_tl_Some:
  assumes "find_tl sh tls sp = Some r"
  shows "\<forall>i sh'. r = Inr (i, sh') \<longrightarrow>
           scan sh' sp tls 0 = Inr (Some i) \<and> (\<exists>k. sh' = grown k sh sp)"
proof (rule find_tl.raw_induct
    [where P = "\<lambda>sh tls sp r. \<forall>i sh'. r = Inr (i, sh') \<longrightarrow>
           scan sh' sp tls 0 = Inr (Some i) \<and> (\<exists>k. sh' = grown k sh sp)", OF _ assms])
  fix f sh tls sp r
  assume IH: "\<And>sh tls sp r. f sh tls sp = Some r \<Longrightarrow>
      \<forall>i sh'. r = Inr (i, sh') \<longrightarrow> scan sh' sp tls 0 = Inr (Some i) \<and> (\<exists>k. sh' = grown k sh sp)"
    and body: "(case scan sh sp tls 0 of
        Inl e \<Rightarrow> Some (Inl e)
      | Inr None \<Rightarrow> f (grow sh sp) tls sp
      | Inr (Some best_tl_idx) \<Rightarrow> Some (Inr (best_tl_idx, sh))) = Some r"
  show "\<forall>i sh'. r = Inr (i, sh') \<longrightarrow>
          scan sh' sp tls 0 = Inr (Some i) \<and> (\<exists>k. sh' = grown k sh sp)"
  proof (intro allI impI)
    fix i sh'
    assume r: "r = Inr (i, sh')"
    show "scan sh' sp tls 0 = Inr (Some i) \<and> (\<exists>k. sh' = grown k sh sp)"
    proof (cases "scan sh sp tls 0")
      case (Inl e)
      then show ?thesis using body r by simp
    next
      case (Inr v)
      show ?thesis
      proof (cases v)
        case None
        then have "f (grow sh sp) tls sp = Some r"
          using body Inr by simp
        from IH [OF this] r obtain k where
          "scan sh' sp tls 0 = Inr (Some i)" "sh' = grown k (grow sh sp) sp" by blast
        then have "scan sh' sp tls 0 = Inr (Some i) \<and> sh' = grown (Suc k) sh sp"
          by simp
        then show ?thesis by blast
      next
        case (Some j)
        then have "i = j" "sh' = sh"
          using body r Inr by auto
        then have "scan sh' sp tls 0 = Inr (Some i) \<and> sh' = grown 0 sh sp"
          using Inr Some by simp
        then show ?thesis by blast
      qed
    qed
  qed
qed

lemma find_tl_admits:
  assumes "find_tl sh tls sp = Some (Inr (i, sh'))"
  shows "i < length tls \<and> admits sh' sp (tls ! i) \<and> (\<forall>k<i. \<not> admits sh' sp (tls ! k)) \<and>
         0 < s_w sp \<and> 0 < s_h sp \<and> (\<exists>k. sh' = grown k sh sp)"
  using find_tl_Some [OF assms] scan_Some [of sh' sp tls i] by blast

subsection \<open>The invariants of the packing loop\<close>

lemma grown_shape:
  "shape0 (grown k sh sp) = shape0 sh + k * s_h sp \<and> shape1 (grown k sh sp) = shape1 sh + k * s_w sp"
  by (induction k arbitrary: sh) (simp_all add: grow_def)

lemma grown_occ:
  "i < shape0 (grown k sh sp) \<Longrightarrow> j < shape1 (grown k sh sp) \<Longrightarrow>
   occ (grown k sh sp) i j = (if i < shape0 sh \<and> j < shape1 sh then occ sh i j else 0)"
proof (induction k arbitrary: sh)
  case 0
  then show ?case by simp
next
  case (Suc k)
  from Suc.IH [of "grow sh sp"] Suc.prems show ?case
    by (auto simp: grow_def)
qed

lemma place_Inr:
  assumes "admits sh sp (tls_to_try st ! i)" and "n_chan (s_image sp) = 4"
  shows "\<exists>st1. place st sp i sh = Inr st1"
  using assms
  by (simp add: place_def Let_def case_prod_beta broadcasts_def admits_def s_w_def s_h_def min_def)

lemma place_Inl:
  assumes "admits sh sp (tls_to_try st ! i)"
    and "n_chan (s_image sp) \<noteq> 4" "n_chan (s_image sp) \<noteq> 1"
  shows "place st sp i sh = Inl (ValueError ''could not broadcast input array'')"
  using assms
  by (simp add: place_def Let_def case_prod_beta broadcasts_def)

lemma place_fields:
  assumes "place st sp i sh = Inr st1"
  shows "sheet st1 =
     sh\<lparr>occ := (\<lambda>y x. if snd (tls_to_try st ! i) \<le> y \<and> y < snd (tls_to_try st ! i) + s_h sp \<and>
                          fst (tls_to_try st ! i) \<le> x \<and> x < fst (tls_to_try st ! i) + s_w sp
                        then 1 else occ sh y x)\<rparr>"
    and "tls_to_try st1 =
     take i (tls_to_try st) @ drop (Suc i) (tls_to_try st) @
     [(fst (tls_to_try st ! i), snd (tls_to_try st ! i) + s_h sp + 1),
      (fst (tls_to_try st ! i) + s_w sp + 1, snd (tls_to_try st ! i))]"
    and "placed st1 = placed st @ [sp\<lparr>s_tl := tls_to_try st ! i\<rparr>]"
  using assms
  by (auto simp: place_def Let_def case_prod_beta get_neighbor_tls_def s_bl_def s_tr_def s_w_def s_h_def
      split: if_splits)

lemma place_occ:
  assumes "place st sp i sh = Inr st1"
  shows "occ (sheet st1) y x \<noteq> 0 \<Longrightarrow> occ sh y x \<noteq> 0 \<or> x < fst (tls_to_try st ! i) + s_w sp"
  by (simp add: place_fields(1) [OF assms] split: if_splits)

lemma place_shape:
  assumes "place st sp i sh = Inr st1"
  shows "shape0 (sheet st1) = shape0 sh" "shape1 (sheet st1) = shape1 sh"
  by (simp_all add: place_fields(1) [OF assms])

lemma footprint_placed:
  "footprint (sp\<lparr>s_tl := c\<rparr>) = {fst c..<fst c + s_w sp} \<times> {snd c..<snd c + s_h sp}"
  by (simp add: footprint_def s_w_def s_h_def)

lemma in_set_pop:
  assumes c: "c \<in> set xs" and i: "i < length xs" and n: "c \<noteq> xs ! i"
  shows "c \<in> set (take i xs) \<union> set (drop (Suc i) xs)"
proof -
  have "set xs = set (take i xs @ xs ! i # drop (Suc i) xs)"
    using id_take_nth_drop [OF i] by simp
  then have "c \<in> set (take i xs @ xs ! i # drop (Suc i) xs)"
    using c by simp
  then show ?thesis
    using n by auto
qed

lemma grown_free_column:
  assumes "fst c \<le> shape1 sh" "snd c \<le> shape0 sh"
    and "\<forall>i j. i < shape0 sh \<and> j < shape1 sh \<and> occ sh i j \<noteq> 0 \<longrightarrow> j < fst c"
  shows "fst c \<le> shape1 (grown k sh sp) \<and> snd c \<le> shape0 (grown k sh sp) \<and>
     (\<forall>i j. i < shape0 (grown k sh sp) \<and> j < shape1 (grown k sh sp) \<and> occ (grown k sh sp) i j \<noteq> 0
        \<longrightarrow> j < fst c)"
proof (intro conjI allI impI)
  show "fst c \<le> shape1 (grown k sh sp)" "snd c \<le> shape0 (grown k sh sp)"
    using assms(1,2) grown_shape [of k sh sp] by simp_all
next
  fix i j
  assume h: "i < shape0 (grown k sh sp) \<and> j < shape1 (grown k sh sp) \<and> occ (grown k sh sp) i j \<noteq> 0"
  then have "i < shape0 sh \<and> j < shape1 sh \<and> occ sh i j \<noteq> 0"
    using grown_occ [of i k sh sp j] by (auto split: if_splits)
  then show "j < fst c" using assms(3) by blast
qed

lemma place_keeps_disjoint:
  assumes o: "occupied st" and d: "disjoint_footprints (placed st)"
    and f: "find_tl (sheet st) (tls_to_try st) sp = Some (Inr (i, sh'))"
    and pl: "place st sp i sh' = Inr st1"
  shows "occupied st1 \<and> disjoint_footprints (placed st1)"
proof -
  let ?c = "tls_to_try st ! i"
  let ?p = "sp\<lparr>s_tl := ?c\<rparr>"
  from find_tl_admits [OF f] obtain k where a: "admits sh' sp ?c" and k: "sh' = grown k (sheet st) sp"
    by blast
  have old: "x < shape1 sh' \<and> y < shape0 sh' \<and> occ sh' y x = 1"
    if "p \<in> set (placed st)" "(x, y) \<in> footprint p" for p x y
  proof -
    from o that have b: "x < shape1 (sheet st)" "y < shape0 (sheet st)" "occ (sheet st) y x = 1"
      by (auto simp: occupied_def)
    have s: "x < shape1 sh'" "y < shape0 sh'"
      using b grown_shape [of k "sheet st" sp] by (simp_all add: k)
    show ?thesis
      using s b grown_occ [of y k "sheet st" sp x] by (simp add: k)
  qed
  have new: "x < shape1 sh' \<and> y < shape0 sh' \<and> occ sh' y x = 0"
    if "(x, y) \<in> footprint ?p" for x y
    using that a by (auto simp: admits_def footprint_placed)
  have apart: "footprint p \<inter> footprint ?p = {}" if "p \<in> set (placed st)" for p
  proof (rule ccontr)
    assume "footprint p \<inter> footprint ?p \<noteq> {}"
    then obtain x y where "(x, y) \<in> footprint p" "(x, y) \<in> footprint ?p" by auto
    then have "occ sh' y x = 1" "occ sh' y x = 0"
      using old [OF that] new by blast+
    then show False by simp
  qed
  have "occupied st1"
    unfolding occupied_def place_fields(1,3) [OF pl]
  proof (intro ballI, clarify)
    fix p x y
    assume p: "p \<in> set (placed st @ [?p])" and xy: "(x, y) \<in> footprint p"
    have "x < shape1 sh' \<and> y < shape0 sh'"
      using p xy old new by auto
    moreover have "(x, y) \<in> footprint ?p \<or> occ sh' y x = 1"
      using p xy old by auto
    ultimately show "x < shape1 (sh'\<lparr>occ := \<lambda>y x. if snd ?c \<le> y \<and> y < snd ?c + s_h sp \<and>
                          fst ?c \<le> x \<and> x < fst ?c + s_w sp then 1 else occ sh' y x\<rparr>) \<and>
        y < shape0 (sh'\<lparr>occ := \<lambda>y x. if snd ?c \<le> y \<and> y < snd ?c + s_h sp \<and>
                          fst ?c \<le> x \<and> x < fst ?c + s_w sp then 1 else occ sh' y x\<rparr>) \<and>
        occ (sh'\<lparr>occ := \<lambda>y x. if snd ?c \<le> y \<and> y < snd ?c + s_h sp \<and>
                          fst ?c \<le> x \<and> x < fst ?c + s_w sp then 1 else occ sh' y x\<rparr>) y x = 1"
      by (auto simp: footprint_placed)
  qed
  moreover have "disjoint_footprints (placed st @ [?p])"
    unfolding disjoint_footprints_def
  proof (intro allI impI)
    fix m n
    assume mn: "m < n \<and> n < length (placed st @ [?p])"
    show "footprint ((placed st @ [?p]) ! m) \<inter> footprint ((placed st @ [?p]) ! n) = {}"
    proof (cases "n < length (placed st)")
      case True
      then show ?thesis
        using mn d by (simp add: nth_append disjoint_footprints_def)
    next
      case False
      then have n: "n = length (placed st)" using mn by simp
      then have "placed st ! m \<in> set (placed st)" using mn by simp
      from apart [OF this] show ?thesis
        using mn by (simp add: n nth_append)
    qed
  qed
  ultimately show ?thesis
    by (simp add: place_fields(3) [OF pl])
qed

lemma place_keeps_free_column:
  assumes fc: "free_column st"
    and f: "find_tl (sheet st) (tls_to_try st) sp = Some (Inr (i, sh'))"
    and pl: "place st sp i sh' = Inr st1"
  shows "free_column st1"
proof -
  let ?tls = "tls_to_try st"
  let ?q = "?tls ! i"
  from find_tl_admits [OF f] obtain k where i: "i < length ?tls" and a: "admits sh' sp ?q"
    and pos: "0 < s_w sp" "0 < s_h sp" and k: "sh' = grown k (sheet st) sp"
    by blast
  from fc obtain c where c: "c \<in> set ?tls" "fst c \<le> shape1 (sheet st)" "snd c \<le> shape0 (sheet st)"
    "\<forall>i j. i < shape0 (sheet st) \<and> j < shape1 (sheet st) \<and> occ (sheet st) i j \<noteq> 0 \<longrightarrow> j < fst c"
    unfolding free_column_def by blast
  from grown_free_column [OF c(2,3,4), of k sp]
  have c': "fst c \<le> shape1 sh'" "snd c \<le> shape0 sh'"
    "\<And>i j. i < shape0 sh' \<Longrightarrow> j < shape1 sh' \<Longrightarrow> occ sh' i j \<noteq> 0 \<Longrightarrow> j < fst c"
    unfolding k by blast+
  have q: "fst ?q + s_w sp < shape1 sh'" "snd ?q + s_h sp < shape0 sh'"
    using a by (simp_all add: admits_def)
  have goal: "free_column st1"
    if m: "n \<in> set (tls_to_try st1)"
      and n: "fst n \<le> shape1 sh'" "snd n \<le> shape0 sh'" "fst c \<le> fst n" "fst ?q + s_w sp \<le> fst n" for n
    unfolding free_column_def
  proof (rule bexI [OF _ m], intro conjI allI impI)
    show "fst n \<le> shape1 (sheet st1)" "snd n \<le> shape0 (sheet st1)"
      using n by (simp_all add: place_shape [OF pl])
  next
    fix y x
    assume h: "y < shape0 (sheet st1) \<and> x < shape1 (sheet st1) \<and>
        occ (sheet st1) y x \<noteq> 0"
    then have "occ sh' y x \<noteq> 0 \<or> x < fst ?q + s_w sp"
      using place_occ [OF pl, of y x] by blast
    then show "x < fst n"
    proof
      assume "occ sh' y x \<noteq> 0"
      then have "x < fst c" using c'(3) [of y x] h by (simp add: place_shape [OF pl])
      then show ?thesis using n(3) by simp
    next
      assume "x < fst ?q + s_w sp"
      then show ?thesis using n(4) by simp
    qed
  qed
  show ?thesis
  proof (cases "fst ?q + s_w sp \<le> fst c")
    case True
    then have "c \<noteq> ?q" using pos by auto
    then have "c \<in> set (take i ?tls) \<union> set (drop (Suc i) ?tls)"
      using in_set_pop [OF c(1) i] by simp
    then have m: "c \<in> set (tls_to_try st1)"
      by (auto simp: place_fields(2) [OF pl])
    show ?thesis
      using goal [OF m c'(1,2) _ True] by simp
  next
    case False
    let ?n = "(fst ?q + s_w sp + 1, snd ?q)"
    have m: "?n \<in> set (tls_to_try st1)"
      by (simp add: place_fields(2) [OF pl])
    have "fst ?n \<le> shape1 sh'" "snd ?n \<le> shape0 sh'" "fst c \<le> fst ?n" "fst ?q + s_w sp \<le> fst ?n"
      using q False by simp_all
    from goal [OF m this] show ?thesis .
  qed
qed

lemma find_tl_total:
  assumes fc: "free_column st" and pos: "0 < s_w sp" "0 < s_h sp"
  shows "\<exists>i k. k \<le> 2 \<and>
     (\<forall>j<k. \<forall>c\<in>set (tls_to_try st). \<not> admits (grown j (sheet st) sp) sp c) \<and>
     find_tl (sheet st) (tls_to_try st) sp = Some (Inr (i, grown k (sheet st) sp))"
proof -
  let ?sh = "sheet st" and ?tls = "tls_to_try st"
  from fc obtain c where c: "c \<in> set ?tls" "fst c \<le> shape1 ?sh" "snd c \<le> shape0 ?sh"
    "\<forall>i j. i < shape0 ?sh \<and> j < shape1 ?sh \<and> occ ?sh i j \<noteq> 0 \<longrightarrow> j < fst c"
    unfolding free_column_def by blast
  from grown_free_column [OF c(2,3,4), of 2 sp]
  have g: "\<And>i j. i < shape0 (grown 2 ?sh sp) \<Longrightarrow> j < shape1 (grown 2 ?sh sp) \<Longrightarrow>
      occ (grown 2 ?sh sp) i j \<noteq> 0 \<Longrightarrow> j < fst c"
    by blast
  have s: "shape0 (grown 2 ?sh sp) = shape0 ?sh + 2 * s_h sp" "shape1 (grown 2 ?sh sp) = shape1 ?sh + 2 * s_w sp"
    using grown_shape [of 2 ?sh sp] by simp_all
  have b: "fst c + s_w sp < shape1 (grown 2 ?sh sp)" "snd c + s_h sp < shape0 (grown 2 ?sh sp)"
    using c(2,3) pos by (simp_all add: s)
  have "occ (grown 2 ?sh sp) i j = 0"
    if "i \<in> {snd c..<snd c + s_h sp}" "j \<in> {fst c..<fst c + s_w sp}" for i j
  proof (rule ccontr)
    assume "occ (grown 2 ?sh sp) i j \<noteq> 0"
    moreover have "i < shape0 (grown 2 ?sh sp)" "j < shape1 (grown 2 ?sh sp)"
      using that b by auto
    ultimately have "j < fst c" using g by blast
    then show False using that by simp
  qed
  then have "admits (grown 2 ?sh sp) sp c"
    using b by (simp add: admits_def)
  then have "\<exists>x\<in>set ?tls. admits (grown 2 ?sh sp) sp x"
    using c(1) by blast
  then obtain i2 where s2: "scan (grown 2 ?sh sp) sp ?tls 0 = Inr (Some i2)"
    by (simp add: scan_positive [OF pos])
  have g1: "grown (Suc 0) ?sh sp = grow ?sh sp" and g2: "grown 2 ?sh sp = grow (grow ?sh sp) sp"
    by (simp_all add: numeral_2_eq_2)
  have opt: "(\<exists>i. scan s sp ?tls 0 = Inr (Some i)) \<or> scan s sp ?tls 0 = Inr None" for s
    by (simp add: scan_positive [OF pos])
  have none: "\<forall>c\<in>set ?tls. \<not> admits s sp c" if "scan s sp ?tls 0 = Inr None" for s
    using that by (simp add: scan_positive [OF pos] split: if_splits)
  consider (now) i where "scan ?sh sp ?tls 0 = Inr (Some i)"
    | (once) i where "scan ?sh sp ?tls 0 = Inr None" "scan (grow ?sh sp) sp ?tls 0 = Inr (Some i)"
    | (twice) "scan ?sh sp ?tls 0 = Inr None" "scan (grow ?sh sp) sp ?tls 0 = Inr None"
    using opt [of ?sh] opt [of "grow ?sh sp"] by blast
  then show ?thesis
  proof cases
    case now
    then have "find_tl ?sh ?tls sp = Some (Inr (i, grown 0 ?sh sp))"
      using find_tl_found [of ?sh sp ?tls i] by simp
    then have "0 \<le> (2 :: nat) \<and> (\<forall>j<0. \<forall>c\<in>set ?tls. \<not> admits (grown j ?sh sp) sp c) \<and>
        find_tl ?sh ?tls sp = Some (Inr (i, grown 0 ?sh sp))"
      by simp
    then show ?thesis by blast
  next
    case once
    then have "find_tl ?sh ?tls sp = Some (Inr (i, grown (Suc 0) ?sh sp))"
      using find_tl_grow [of ?sh sp ?tls] find_tl_found [of "grow ?sh sp" sp ?tls i] by simp
    moreover have "Suc 0 \<le> 2" by simp
    moreover have "\<forall>j<Suc 0. \<forall>c\<in>set ?tls. \<not> admits (grown j ?sh sp) sp c"
      using none [OF once(1)] by simp
    ultimately show ?thesis by blast
  next
    case twice
    then have "find_tl ?sh ?tls sp = find_tl (grown 2 ?sh sp) ?tls sp"
      using find_tl_grow [of ?sh sp ?tls] find_tl_grow [of "grow ?sh sp" sp ?tls] by (simp add: g2)
    then have "find_tl ?sh ?tls sp = Some (Inr (i2, grown 2 ?sh sp))"
      using find_tl_found [OF s2] by simp
    moreover have "\<forall>j<2. \<forall>c\<in>set ?tls. \<not> admits (grown j ?sh sp) sp c"
    proof (intro allI impI)
      fix j :: nat
      assume "j < 2"
      then have "j = 0 \<or> j = Suc 0" by auto
      then show "\<forall>c\<in>set ?tls. \<not> admits (grown j ?sh sp) sp c"
        using none [OF twice(1)] none [OF twice(2)] by auto
    qed
    moreover have "(2 :: nat) \<le> 2" by simp
    ultimately show ?thesis by blast
  qed
qed

lemma place_keeps_within_twice:
  assumes fc: "free_column st" and w: "within_twice st"
    and f: "find_tl (sheet st) (tls_to_try st) sp = Some (Inr (i, sh'))"
    and pl: "place st sp i sh' = Inr st1"
  shows "within_twice st1"
proof -
  from find_tl_admits [OF f] have pos: "0 < s_w sp" "0 < s_h sp" by auto
  from find_tl_total [OF fc pos] f obtain k where k: "k \<le> 2" "sh' = grown k (sheet st) sp"
    by auto
  have m: "k * s_w sp \<le> 2 * s_w sp" "k * s_h sp \<le> 2 * s_h sp"
    using k(1) by simp_all
  have s: "shape0 sh' = shape0 (sheet st) + k * s_h sp" "shape1 sh' = shape1 (sheet st) + k * s_w sp"
    using grown_shape [of k "sheet st" sp] by (simp_all add: k(2))
  have p: "s_w (sp\<lparr>s_tl := c\<rparr>) = s_w sp" "s_h (sp\<lparr>s_tl := c\<rparr>) = s_h sp" for c
    by (simp_all add: s_w_def s_h_def)
  have old: "shape1 (sheet st) \<le> 2 * sum_list (map s_w (placed st))"
    "shape0 (sheet st) \<le> 2 * sum_list (map s_h (placed st))"
    using w by (simp_all add: within_twice_def)
  have "shape1 sh' \<le> 2 * (sum_list (map s_w (placed st)) + s_w sp)"
    unfolding s(2) distrib_left by (rule add_le_mono [OF old(1) m(1)])
  moreover have "shape0 sh' \<le> 2 * (sum_list (map s_h (placed st)) + s_h sp)"
    unfolding s(1) distrib_left by (rule add_le_mono [OF old(2) m(2)])
  ultimately show ?thesis
    by (simp add: within_twice_def place_shape [OF pl] place_fields(3) [OF pl] p)
qed

lemma packer_inv_init: "packer_inv init_packer"
  by (simp add: packer_inv_def occupied_def disjoint_footprints_def free_column_def within_twice_def
      init_packer_def empty_canvas_def)

lemma packer_inv_place:
  assumes "packer_inv st" and "find_tl (sheet st) (tls_to_try st) sp = Some (Inr (i, sh'))"
    and "place st sp i sh' = Inr st1"
  shows "packer_inv st1"
  using assms place_keeps_disjoint [of st sp i sh' st1] place_keeps_free_column [of st sp i sh' st1]
    place_keeps_within_twice [of st sp i sh' st1]
  by (simp add: packer_inv_def)

lemma pack_loop_inv:
  "packer_inv st \<Longrightarrow> pack_loop sps st = Some (Inr st') \<Longrightarrow>
   packer_inv st' \<and>
   (\<exists>ps. placed st' = placed st @ ps \<and> list_all2 (\<lambda>sp p. \<exists>t. p = sp\<lparr>s_tl := t\<rparr>) sps ps)"
proof (induction sps arbitrary: st)
  case Nil
  then show ?case by simp
next
  case (Cons sp sps)
  from Cons.prems(2) obtain i sh' st1 where
    f: "find_tl (sheet st) (tls_to_try st) sp = Some (Inr (i, sh'))"
    and pl: "place st sp i sh' = Inr st1"
    and r: "pack_loop sps st1 = Some (Inr st')"
    by (auto split: option.splits sum.splits)
  from Cons.IH [OF packer_inv_place [OF Cons.prems(1) f pl] r] obtain ps where
    inv: "packer_inv st'" and ps: "placed st' = placed st1 @ ps"
    "list_all2 (\<lambda>sp p. \<exists>t. p = sp\<lparr>s_tl := t\<rparr>) sps ps"
    by blast
  have "placed st' = placed st @ (sp\<lparr>s_tl := tls_to_try st ! i\<rparr> # ps)"
    using ps(1) by (simp add: place_fields(3) [OF pl])
  moreover have "list_all2 (\<lambda>sp p. \<exists>t. p = sp\<lparr>s_tl := t\<rparr>) (sp # sps) (sp\<lparr>s_tl := tls_to_try st ! i\<rparr> # ps)"
    using ps(2) by (simp only: list_all2_Cons) blast
  ultimately show ?case
    using inv by blast
qed

text \<open>One turn of the loop of line 202, for a sprite of positive size and four channels.\<close>

lemma pack_step:
  assumes inv: "packer_inv st" and pos: "0 < s_w sp" "0 < s_h sp" and ch: "n_chan (s_image sp) = 4"
  shows "\<exists>i k st1. k \<le> 2 \<and>
     (\<forall>j<k. \<forall>c\<in>set (tls_to_try st). \<not> admits (grown j (sheet st) sp) sp c) \<and>
     i < length (tls_to_try st) \<and>
     admits (grown k (sheet st) sp) sp (tls_to_try st ! i) \<and>
     (\<forall>m<i. \<not> admits (grown k (sheet st) sp) sp (tls_to_try st ! m)) \<and>
     find_tl (sheet st) (tls_to_try st) sp = Some (Inr (i, grown k (sheet st) sp)) \<and>
     place st sp i (grown k (sheet st) sp) = Inr st1 \<and>
     packer_inv st1 \<and>
     pack_loop [sp] st = Some (Inr st1)"
proof -
  have fc: "free_column st" using inv by (simp add: packer_inv_def)
  from find_tl_total [OF fc pos] obtain i k where
    k: "k \<le> 2" "\<forall>j<k. \<forall>c\<in>set (tls_to_try st). \<not> admits (grown j (sheet st) sp) sp c"
    and f: "find_tl (sheet st) (tls_to_try st) sp = Some (Inr (i, grown k (sheet st) sp))"
    by blast
  from find_tl_admits [OF f] have a: "i < length (tls_to_try st)"
    "admits (grown k (sheet st) sp) sp (tls_to_try st ! i)"
    "\<forall>m<i. \<not> admits (grown k (sheet st) sp) sp (tls_to_try st ! m)"
    by blast+
  from place_Inr [OF a(2) ch] obtain st1 where pl: "place st sp i (grown k (sheet st) sp) = Inr st1"
    by blast
  have "packer_inv st1"
    by (rule packer_inv_place [OF inv f pl])
  moreover have "pack_loop [sp] st = Some (Inr st1)"
    by (simp add: f pl)
  ultimately show ?thesis
    using k a f pl by blast
qed

lemma pack_loop_append:
  "pack_loop xs st = Some (Inr st1) \<Longrightarrow> pack_loop (xs @ ys) st = pack_loop ys st1"
proof (induction xs arbitrary: st)
  case Nil
  then show ?case by simp
next
  case (Cons sp xs)
  from Cons.prems obtain i sh' st2 where
    f: "find_tl (sheet st) (tls_to_try st) sp = Some (Inr (i, sh'))"
    and pl: "place st sp i sh' = Inr st2"
    and r: "pack_loop xs st2 = Some (Inr st1)"
    by (auto split: option.splits sum.splits)
  from Cons.IH [OF r] show ?case
    by (simp add: f pl)
qed

lemma pack_loop_total:
  "packer_inv st \<Longrightarrow> \<forall>sp\<in>set sps. 0 < s_w sp \<and> 0 < s_h sp \<and> n_chan (s_image sp) = 4 \<Longrightarrow>
   \<exists>st'. pack_loop sps st = Some (Inr st')"
proof (induction sps arbitrary: st)
  case Nil
  then show ?case by simp
next
  case (Cons sp sps)
  from Cons.prems(2) have sp: "0 < s_w sp" "0 < s_h sp" "n_chan (s_image sp) = 4"
    by simp_all
  from pack_step [OF Cons.prems(1) sp] obtain i sh' st1 where
    f: "find_tl (sheet st) (tls_to_try st) sp = Some (Inr (i, sh'))"
    and pl: "place st sp i sh' = Inr st1" and inv: "packer_inv st1"
    by blast
  from Cons.IH [OF inv] Cons.prems(2)
  show ?case
    by (simp add: f pl)
qed

lemma same_sizes:
  "list_all2 (\<lambda>sp p. \<exists>t. p = sp\<lparr>s_tl := t\<rparr>) sps ps \<Longrightarrow>
   map s_w ps = map s_w sps \<and> map s_h ps = map s_h sps \<and> map s_name ps = map s_name sps"
  by (induction rule: list_all2_induct) (auto simp: s_w_def s_h_def)

lemma pack_inv:
  assumes "pack sps = Some (Inr st)"
  shows "packer_inv st \<and> list_all2 (\<lambda>sp p. \<exists>t. p = sp\<lparr>s_tl := t\<rparr>) sps (placed st)"
  using pack_loop_inv [OF packer_inv_init, of sps st] assms
  by (auto simp: pack_def init_packer_def)

lemma layout_Some:
  "layout r = Some (sz, ts) \<Longrightarrow>
   \<exists>st. r = Some (Inr st) \<and> shape1 (sheet st) = fst sz \<and> shape0 (sheet st) = snd sz \<and>
        map (\<lambda>s. (s_name s, s_tl s)) (placed st) = ts"
  by (auto simp: layout_def split: option.splits sum.splits)

text \<open>The sprites are placed in the order of the input list.\<close>

lemma pack_keeps_order:
  assumes "pack sps = Some (Inr st)"
  shows "map s_name (placed st) = map s_name sps"
  using pack_inv [OF assms] same_sizes [of sps "placed st"] by simp

lemma case_Some_Inr:
  "(case r of None \<Rightarrow> False | Some (Inl e) \<Rightarrow> False | Some (Inr v) \<Rightarrow> P v) \<Longrightarrow>
   \<exists>v. r = Some (Inr v) \<and> P v"
  by (auto split: option.splits sum.splits)

subsection \<open>First fit\<close>

text \<open>
  Claim C4, as amended. When the loop of line 204 ends for a sprite, the index it has found is
  the first one in the order of the candidate list whose candidate \<open>(cx, cy)\<close> passes the test
  on the sheet as it then is: \<open>cx + w\<close> is strictly below the width of the sheet, \<open>cy + h\<close>
  strictly below its height, and the occupancy plane is zero over the footprint. It is the
  index that the scan of lines 205 to 215 returns on that sheet. No candidate whose footprint
  ends exactly on the right or on the bottom edge of the sheet passes the test, and none is
  the one found. When the placement of lines 229 to 237 does not raise, the candidate found is
  the \<open>tl\<close> of the sprite, which is the last one placed.
\<close>

theorem first_fit_strict:
  assumes "find_tl (sheet st) (tls_to_try st) sp = Some (Inr (i, sh'))"
  shows "i < length (tls_to_try st) \<and> admits sh' sp (tls_to_try st ! i) \<and>
         (\<forall>k<i. \<not> admits sh' sp (tls_to_try st ! k)) \<and>
         scan sh' sp (tls_to_try st) 0 = Inr (Some i) \<and>
         fst (tls_to_try st ! i) + s_w sp < shape1 sh' \<and>
         snd (tls_to_try st ! i) + s_h sp < shape0 sh' \<and>
         (\<forall>y\<in>{snd (tls_to_try st ! i)..<snd (tls_to_try st ! i) + s_h sp}.
            \<forall>x\<in>{fst (tls_to_try st ! i)..<fst (tls_to_try st ! i) + s_w sp}. occ sh' y x = 0) \<and>
         (\<forall>c. fst c + s_w sp = shape1 sh' \<or> snd c + s_h sp = shape0 sh' \<longrightarrow> \<not> admits sh' sp c) \<and>
         (\<forall>k. fst (tls_to_try st ! k) + s_w sp = shape1 sh' \<or>
              snd (tls_to_try st ! k) + s_h sp = shape0 sh' \<longrightarrow> k \<noteq> i) \<and>
         (\<forall>st1. place st sp i sh' = Inr st1 \<longrightarrow>
            last (placed st1) = sp\<lparr>s_tl := tls_to_try st ! i\<rparr>)"
proof -
  from find_tl_admits [OF assms] have a: "i < length (tls_to_try st)"
    "admits sh' sp (tls_to_try st ! i)" "\<forall>k<i. \<not> admits sh' sp (tls_to_try st ! k)"
    by blast+
  have "fst (tls_to_try st ! i) + s_w sp < shape1 sh'" "snd (tls_to_try st ! i) + s_h sp < shape0 sh'"
    "\<forall>y\<in>{snd (tls_to_try st ! i)..<snd (tls_to_try st ! i) + s_h sp}.
       \<forall>x\<in>{fst (tls_to_try st ! i)..<fst (tls_to_try st ! i) + s_w sp}. occ sh' y x = 0"
    using a(2) by (simp_all add: admits_def)
  moreover have "\<forall>c. fst c + s_w sp = shape1 sh' \<or> snd c + s_h sp = shape0 sh' \<longrightarrow> \<not> admits sh' sp c"
    by (auto simp: admits_def)
  moreover have "\<forall>k. fst (tls_to_try st ! k) + s_w sp = shape1 sh' \<or>
      snd (tls_to_try st ! k) + s_h sp = shape0 sh' \<longrightarrow> k \<noteq> i"
    using a(2) by (auto simp: admits_def)
  moreover have "scan sh' sp (tls_to_try st) 0 = Inr (Some i)"
    using find_tl_Some [OF assms] by blast
  moreover have "\<forall>st1. place st sp i sh' = Inr st1 \<longrightarrow>
      last (placed st1) = sp\<lparr>s_tl := tls_to_try st ! i\<rparr>"
    by (simp add: place_fields(3))
  ultimately show ?thesis
    using a by blast
qed

text \<open>
  After one sprite of 4 by 4 the sheet is 8 by 8 and the candidates are \<open>(0, 5)\<close> and
  \<open>(5, 0)\<close>. For a sprite of 2 by 3 the loop finds the second one, without growth: at the
  first one the footprint would end on the bottom edge.
\<close>

theorem first_fit_strict_witness:
  "\<exists>st sh'. pack [plain_sprite ''a'' 4 4] = Some (Inr st) \<and>
     shape1 (sheet st) = 8 \<and> shape0 (sheet st) = 8 \<and> tls_to_try st = [(0, 5), (5, 0)] \<and>
     find_tl (sheet st) (tls_to_try st) (plain_sprite ''t'' 2 3) = Some (Inr (1, sh')) \<and>
     shape1 sh' = 8 \<and> shape0 sh' = 8 \<and>
     admits sh' (plain_sprite ''t'' 2 3) (5, 0) \<and>
     \<not> admits sh' (plain_sprite ''t'' 2 3) (0, 5) \<and>
     snd (0 :: nat, 5 :: nat) + s_h (plain_sprite ''t'' 2 3) = shape0 sh'"
proof -
  let ?t = "plain_sprite ''t'' 2 3"
  have "case pack [plain_sprite ''a'' 4 4] of None \<Rightarrow> False | Some (Inl e) \<Rightarrow> False
      | Some (Inr st) \<Rightarrow>
          shape1 (sheet st) = 8 \<and> shape0 (sheet st) = 8 \<and> tls_to_try st = [(0, 5), (5, 0)] \<and>
          (case find_tl (sheet st) (tls_to_try st) ?t of None \<Rightarrow> False | Some (Inl e) \<Rightarrow> False
           | Some (Inr r) \<Rightarrow> fst r = 1 \<and> shape1 (snd r) = 8 \<and> shape0 (snd r) = 8)"
    by code_simp
  from case_Some_Inr [OF this] obtain st where
    p: "pack [plain_sprite ''a'' 4 4] = Some (Inr st)"
    and s: "shape1 (sheet st) = 8" "shape0 (sheet st) = 8"
    and t: "tls_to_try st = [(0, 5), (5, 0)]"
    and c: "case find_tl (sheet st) (tls_to_try st) ?t of None \<Rightarrow> False | Some (Inl e) \<Rightarrow> False
           | Some (Inr r) \<Rightarrow> fst r = 1 \<and> shape1 (snd r) = 8 \<and> shape0 (snd r) = 8"
    by (elim exE conjE) (rule that)
  from case_Some_Inr [OF c] obtain r where
    f0: "find_tl (sheet st) (tls_to_try st) ?t = Some (Inr r)"
    and r: "fst r = 1" "shape1 (snd r) = 8" "shape0 (snd r) = 8"
    by (elim exE conjE) (rule that)
  obtain sh' where r': "r = (1, sh')"
    using r(1) by (cases r) simp
  have f: "find_tl (sheet st) (tls_to_try st) ?t = Some (Inr (1, sh'))"
    using f0 by (simp only: r')
  have s': "shape1 sh' = 8" "shape0 sh' = 8"
    using r(2,3) by (simp_all add: r')
  have h: "s_h ?t = 3"
    by (simp add: plain_sprite_def s_h_def zeros_def)
  from first_fit_strict [OF f]
  have "admits sh' ?t (tls_to_try st ! 1)" "\<forall>k<1. \<not> admits sh' ?t (tls_to_try st ! k)"
    by blast+
  then have "admits sh' ?t (5, 0)" "\<not> admits sh' ?t (0, 5)"
    by (simp_all add: t)
  then show ?thesis
    using p s t f s' h by (intro exI [of _ st] exI [of _ sh']) simp
qed

text \<open>
  A footprint that ends exactly on the right and the bottom edge lies within the canvas and is
  free, and is not selected: on an empty sheet of 4 by 4 the scan rejects the candidate
  \<open>(0, 0)\<close> for a sprite of 4 by 4, and the loop grows the sheet to 8 by 8 before it places
  the sprite there. In a run of the packer, the sprite of 2 by 3 that follows a sprite of
  4 by 4 would end on the bottom edge of the sheet at the first candidate, \<open>(0, 5)\<close>, and is
  placed at the second, \<open>(5, 0)\<close>.
\<close>

theorem first_fit_strict_counterexample:
  "fits_within (empty_canvas 4 4) (plain_sprite ''s'' 4 4) (0, 0) \<and>
   scan (empty_canvas 4 4) (plain_sprite ''s'' 4 4) [(0, 0)] 0 = Inr None \<and>
   layout (pack_loop [plain_sprite ''s'' 4 4]
      \<lparr>sheet = empty_canvas 4 4, tls_to_try = [(0, 0)], placed = []\<rparr>) =
     Some ((8, 8), [(''s'', 0, 0)]) \<and>
   layout (pack [plain_sprite ''a'' 4 4, plain_sprite ''t'' 2 3]) =
     Some ((8, 8), [(''a'', 0, 0), (''t'', 5, 0)])"
proof (intro conjI)
  show "fits_within (empty_canvas 4 4) (plain_sprite ''s'' 4 4) (0, 0)"
    by (simp add: fits_within_def empty_canvas_def plain_sprite_def s_w_def s_h_def zeros_def)
  show "scan (empty_canvas 4 4) (plain_sprite ''s'' 4 4) [(0, 0)] 0 = Inr None"
    by code_simp
  show "layout (pack_loop [plain_sprite ''s'' 4 4]
      \<lparr>sheet = empty_canvas 4 4, tls_to_try = [(0, 0)], placed = []\<rparr>) =
     Some ((8, 8), [(''s'', 0, 0)])"
    by code_simp
  show "layout (pack [plain_sprite ''a'' 4 4, plain_sprite ''t'' 2 3]) =
     Some ((8, 8), [(''a'', 0, 0), (''t'', 5, 0)])"
    by code_simp
qed

subsection \<open>Placed sprites do not overlap\<close>

text \<open>
  Claim C1. In every state that the packer returns, which are the states between two
  placements, the placed footprints of two distinct sprites are disjoint, and every placed
  footprint lies inside the sheet and is marked on the occupancy plane. At each placement the
  occupancy plane is zero all over the chosen footprint on the sheet on which the candidate
  was found, and one all over it right after; the placement is made whenever the image of the
  sprite has four channels.
\<close>

theorem placed_footprints_disjoint:
  assumes "pack sps = Some (Inr st)"
  shows "(\<forall>a b. a < length (placed st) \<and> b < length (placed st) \<and> a \<noteq> b \<longrightarrow>
            footprint (placed st ! a) \<inter> footprint (placed st ! b) = {}) \<and>
         (\<forall>p\<in>set (placed st). \<forall>(x, y)\<in>footprint p.
            x < shape1 (sheet st) \<and> y < shape0 (sheet st) \<and> occ (sheet st) y x = 1) \<and>
         (\<forall>(st0 :: packer) sp i sh'. find_tl (sheet st0) (tls_to_try st0) sp = Some (Inr (i, sh')) \<longrightarrow>
            (\<forall>(x, y)\<in>footprint (sp\<lparr>s_tl := tls_to_try st0 ! i\<rparr>).
               occ sh' y x = 0 \<and>
               (\<forall>st1. place st0 sp i sh' = Inr st1 \<longrightarrow> occ (sheet st1) y x = 1)) \<and>
            (n_chan (s_image sp) = 4 \<longrightarrow> (\<exists>st1. place st0 sp i sh' = Inr st1)))"
proof (intro conjI allI impI)
  fix a b
  assume h: "a < length (placed st) \<and> b < length (placed st) \<and> a \<noteq> b"
  have d: "disjoint_footprints (placed st)"
    using pack_inv [OF assms] by (simp add: packer_inv_def)
  show "footprint (placed st ! a) \<inter> footprint (placed st ! b) = {}"
  proof (cases "a < b")
    case True
    then show ?thesis using d h by (simp add: disjoint_footprints_def)
  next
    case False
    then have "b < a" using h by simp
    then have "footprint (placed st ! b) \<inter> footprint (placed st ! a) = {}"
      using d h by (simp add: disjoint_footprints_def)
    then show ?thesis by blast
  qed
next
  show "\<forall>p\<in>set (placed st). \<forall>(x, y)\<in>footprint p.
            x < shape1 (sheet st) \<and> y < shape0 (sheet st) \<and> occ (sheet st) y x = 1"
    using pack_inv [OF assms] by (simp add: packer_inv_def occupied_def)
next
  fix st0 :: packer and sp i sh'
  assume f: "find_tl (sheet st0) (tls_to_try st0) sp = Some (Inr (i, sh'))"
  from find_tl_admits [OF f] have a: "admits sh' sp (tls_to_try st0 ! i)" by blast
  show "\<forall>(x, y)\<in>footprint (sp\<lparr>s_tl := tls_to_try st0 ! i\<rparr>).
               occ sh' y x = 0 \<and>
               (\<forall>st1. place st0 sp i sh' = Inr st1 \<longrightarrow> occ (sheet st1) y x = 1)"
    using a by (auto simp: footprint_placed admits_def place_fields(1))
  assume "n_chan (s_image sp) = 4"
  then show "\<exists>st1. place st0 sp i sh' = Inr st1"
    by (rule place_Inr [OF a])
qed

theorem placed_footprints_disjoint_witness:
  "\<exists>st. pack [plain_sprite ''a'' 4 4, plain_sprite ''b'' 2 2] = Some (Inr st) \<and>
     map s_tl (placed st) = [(0, 0), (0, 5)] \<and>
     footprint (placed st ! 0) \<inter> footprint (placed st ! 1) = {}"
proof -
  have "layout (pack [plain_sprite ''a'' 4 4, plain_sprite ''b'' 2 2]) =
      Some ((8, 8), [(''a'', 0, 0), (''b'', 0, 5)])"
    by code_simp
  from layout_Some [OF this] obtain st where
    p: "pack [plain_sprite ''a'' 4 4, plain_sprite ''b'' 2 2] = Some (Inr st)"
    and "shape1 (sheet st) = fst (8 :: nat, 8 :: nat)" "shape0 (sheet st) = snd (8 :: nat, 8 :: nat)"
    and m: "map (\<lambda>s. (s_name s, s_tl s)) (placed st) = [(''a'', 0, 0), (''b'', 0, 5)]"
    by (elim exE conjE) (rule that)
  have "map s_tl (placed st) = map snd (map (\<lambda>s. (s_name s, s_tl s)) (placed st))"
    by (simp add: comp_def)
  then have t: "map s_tl (placed st) = [(0, 0), (0, 5)]"
    by (simp only: m) simp
  have "length (placed st) = length (map s_tl (placed st))"
    by simp
  then have l: "length (placed st) = 2"
    by (simp only: t) simp
  have d: "\<forall>a b. a < length (placed st) \<and> b < length (placed st) \<and> a \<noteq> b \<longrightarrow>
            footprint (placed st ! a) \<inter> footprint (placed st ! b) = {}"
    using placed_footprints_disjoint [OF p] by (rule conjunct1)
  have "footprint (placed st ! 0) \<inter> footprint (placed st ! 1) = {}"
    using d [rule_format, of 0 1] l by simp
  then show ?thesis
    using p t by (intro exI [of _ st]) simp
qed

subsection \<open>The loop terminates\<close>

text \<open>
  Claim C7, as amended. Let every sprite have positive width and height and an image of four
  channels. Then the packer returns without error, and every sprite of the input is placed:
  the placed sprites are the input sprites, in their order, each with a \<open>tl\<close> assigned, and
  each footprint lies inside the final sheet and is marked on its occupancy plane. Whenever no
  candidate passes the test for a sprite, the sheet grows by the height and the width of that
  sprite and the scan is repeated. For each sprite of the input, in the state that the packer
  has reached after the sprites before it: no candidate passes the test on the sheets before
  the last of at most two rounds of growth; on the sheet after them the loop finds the first
  candidate that passes; the sprite is placed there, and stays there to the end.
\<close>

theorem packing_terminates:
  assumes "\<forall>sp\<in>set sps. 0 < s_w sp \<and> 0 < s_h sp \<and> n_chan (s_image sp) = 4"
  shows "(\<exists>st. pack sps = Some (Inr st) \<and>
            list_all2 (\<lambda>sp p. \<exists>t. p = sp\<lparr>s_tl := t\<rparr>) sps (placed st) \<and>
            (\<forall>p\<in>set (placed st). \<forall>(x, y)\<in>footprint p.
               x < shape1 (sheet st) \<and> y < shape0 (sheet st) \<and> occ (sheet st) y x = 1) \<and>
            (\<forall>xs sp ys. sps = xs @ sp # ys \<longrightarrow>
               (\<exists>st0 i k st1.
                  pack xs = Some (Inr st0) \<and> k \<le> 2 \<and>
                  (\<forall>j<k. \<forall>c\<in>set (tls_to_try st0). \<not> admits (grown j (sheet st0) sp) sp c) \<and>
                  shape0 (grown k (sheet st0) sp) = shape0 (sheet st0) + k * s_h sp \<and>
                  shape1 (grown k (sheet st0) sp) = shape1 (sheet st0) + k * s_w sp \<and>
                  i < length (tls_to_try st0) \<and>
                  admits (grown k (sheet st0) sp) sp (tls_to_try st0 ! i) \<and>
                  (\<forall>m<i. \<not> admits (grown k (sheet st0) sp) sp (tls_to_try st0 ! m)) \<and>
                  find_tl (sheet st0) (tls_to_try st0) sp = Some (Inr (i, grown k (sheet st0) sp)) \<and>
                  place st0 sp i (grown k (sheet st0) sp) = Inr st1 \<and>
                  pack (xs @ [sp]) = Some (Inr st1) \<and>
                  last (placed st1) = sp\<lparr>s_tl := tls_to_try st0 ! i\<rparr> \<and>
                  placed st ! length xs = sp\<lparr>s_tl := tls_to_try st0 ! i\<rparr>))) \<and>
         (\<forall>sh tls sp. 0 < s_w sp \<and> 0 < s_h sp \<and> (\<forall>c\<in>set tls. \<not> admits sh sp c) \<longrightarrow>
            find_tl sh tls sp = find_tl (grow sh sp) tls sp \<and>
            shape0 (grow sh sp) = shape0 sh + s_h sp \<and> shape1 (grow sh sp) = shape1 sh + s_w sp)"
proof (intro conjI allI impI)
  from pack_loop_total [OF packer_inv_init assms] obtain st where p: "pack sps = Some (Inr st)"
    by (auto simp: pack_def)
  have order: "list_all2 (\<lambda>sp p. \<exists>t. p = sp\<lparr>s_tl := t\<rparr>) sps (placed st)"
    using pack_inv [OF p] by blast
  have marked: "\<forall>p\<in>set (placed st). \<forall>(x, y)\<in>footprint p.
               x < shape1 (sheet st) \<and> y < shape0 (sheet st) \<and> occ (sheet st) y x = 1"
    using pack_inv [OF p] by (simp add: packer_inv_def occupied_def)
  have step: "\<exists>st0 i k st1.
                  pack xs = Some (Inr st0) \<and> k \<le> 2 \<and>
                  (\<forall>j<k. \<forall>c\<in>set (tls_to_try st0). \<not> admits (grown j (sheet st0) sp) sp c) \<and>
                  shape0 (grown k (sheet st0) sp) = shape0 (sheet st0) + k * s_h sp \<and>
                  shape1 (grown k (sheet st0) sp) = shape1 (sheet st0) + k * s_w sp \<and>
                  i < length (tls_to_try st0) \<and>
                  admits (grown k (sheet st0) sp) sp (tls_to_try st0 ! i) \<and>
                  (\<forall>m<i. \<not> admits (grown k (sheet st0) sp) sp (tls_to_try st0 ! m)) \<and>
                  find_tl (sheet st0) (tls_to_try st0) sp = Some (Inr (i, grown k (sheet st0) sp)) \<and>
                  place st0 sp i (grown k (sheet st0) sp) = Inr st1 \<and>
                  pack (xs @ [sp]) = Some (Inr st1) \<and>
                  last (placed st1) = sp\<lparr>s_tl := tls_to_try st0 ! i\<rparr> \<and>
                  placed st ! length xs = sp\<lparr>s_tl := tls_to_try st0 ! i\<rparr>"
    if split: "sps = xs @ sp # ys" for xs sp ys
  proof -
    have xs: "\<forall>s\<in>set xs. 0 < s_w s \<and> 0 < s_h s \<and> n_chan (s_image s) = 4"
      and sp: "0 < s_w sp" "0 < s_h sp" "n_chan (s_image sp) = 4"
      using assms by (simp_all add: split)
    from pack_loop_total [OF packer_inv_init xs] obtain st0 where
      p0: "pack_loop xs init_packer = Some (Inr st0)"
      by blast
    from pack_loop_inv [OF packer_inv_init p0] obtain ps0 where
      inv0: "packer_inv st0" and ps0: "placed st0 = placed init_packer @ ps0"
      "list_all2 (\<lambda>sp p. \<exists>t. p = sp\<lparr>s_tl := t\<rparr>) xs ps0"
      by blast
    have len0: "length (placed st0) = length xs"
      using list_all2_lengthD [OF ps0(2)] by (simp add: ps0(1) init_packer_def)
    from pack_step [OF inv0 sp] obtain i k st1 where
      k: "k \<le> 2" "\<forall>j<k. \<forall>c\<in>set (tls_to_try st0). \<not> admits (grown j (sheet st0) sp) sp c"
      and a: "i < length (tls_to_try st0)" "admits (grown k (sheet st0) sp) sp (tls_to_try st0 ! i)"
      "\<forall>m<i. \<not> admits (grown k (sheet st0) sp) sp (tls_to_try st0 ! m)"
      and f: "find_tl (sheet st0) (tls_to_try st0) sp = Some (Inr (i, grown k (sheet st0) sp))"
      and pl: "place st0 sp i (grown k (sheet st0) sp) = Inr st1"
      and inv1: "packer_inv st1"
      and p1: "pack_loop [sp] st0 = Some (Inr st1)"
      by (elim exE conjE) (rule that)
    have pl1: "placed st1 = placed st0 @ [sp\<lparr>s_tl := tls_to_try st0 ! i\<rparr>]"
      by (rule place_fields(3) [OF pl])
    have p01: "pack_loop (xs @ [sp]) init_packer = Some (Inr st1)"
      using pack_loop_append [OF p0, of "[sp]"] p1 by simp
    have "pack_loop ((xs @ [sp]) @ ys) init_packer = pack_loop ys st1"
      by (rule pack_loop_append [OF p01])
    then have "pack_loop ys st1 = Some (Inr st)"
      using p by (simp add: pack_def split)
    from pack_loop_inv [OF inv1 this] obtain ps where ps: "placed st = placed st1 @ ps"
      by blast
    have nth: "placed st ! length xs = sp\<lparr>s_tl := tls_to_try st0 ! i\<rparr>"
      by (simp add: ps pl1 len0 [symmetric])
    have "pack xs = Some (Inr st0)" "pack (xs @ [sp]) = Some (Inr st1)"
      using p0 p01 by (simp_all add: pack_def)
    moreover have "shape0 (grown k (sheet st0) sp) = shape0 (sheet st0) + k * s_h sp"
      "shape1 (grown k (sheet st0) sp) = shape1 (sheet st0) + k * s_w sp"
      using grown_shape [of k "sheet st0" sp] by simp_all
    moreover have "last (placed st1) = sp\<lparr>s_tl := tls_to_try st0 ! i\<rparr>"
      by (simp add: pl1)
    ultimately show ?thesis
      using k a f pl nth by blast
  qed
  have all: "\<forall>xs sp ys. sps = xs @ sp # ys \<longrightarrow>
               (\<exists>st0 i k st1.
                  pack xs = Some (Inr st0) \<and> k \<le> 2 \<and>
                  (\<forall>j<k. \<forall>c\<in>set (tls_to_try st0). \<not> admits (grown j (sheet st0) sp) sp c) \<and>
                  shape0 (grown k (sheet st0) sp) = shape0 (sheet st0) + k * s_h sp \<and>
                  shape1 (grown k (sheet st0) sp) = shape1 (sheet st0) + k * s_w sp \<and>
                  i < length (tls_to_try st0) \<and>
                  admits (grown k (sheet st0) sp) sp (tls_to_try st0 ! i) \<and>
                  (\<forall>m<i. \<not> admits (grown k (sheet st0) sp) sp (tls_to_try st0 ! m)) \<and>
                  find_tl (sheet st0) (tls_to_try st0) sp = Some (Inr (i, grown k (sheet st0) sp)) \<and>
                  place st0 sp i (grown k (sheet st0) sp) = Inr st1 \<and>
                  pack (xs @ [sp]) = Some (Inr st1) \<and>
                  last (placed st1) = sp\<lparr>s_tl := tls_to_try st0 ! i\<rparr> \<and>
                  placed st ! length xs = sp\<lparr>s_tl := tls_to_try st0 ! i\<rparr>)"
    by (intro allI impI) (rule step)
  have final: "pack sps = Some (Inr st) \<and>
            list_all2 (\<lambda>sp p. \<exists>t. p = sp\<lparr>s_tl := t\<rparr>) sps (placed st) \<and>
            (\<forall>p\<in>set (placed st). \<forall>(x, y)\<in>footprint p.
               x < shape1 (sheet st) \<and> y < shape0 (sheet st) \<and> occ (sheet st) y x = 1) \<and>
            (\<forall>xs sp ys. sps = xs @ sp # ys \<longrightarrow>
               (\<exists>st0 i k st1.
                  pack xs = Some (Inr st0) \<and> k \<le> 2 \<and>
                  (\<forall>j<k. \<forall>c\<in>set (tls_to_try st0). \<not> admits (grown j (sheet st0) sp) sp c) \<and>
                  shape0 (grown k (sheet st0) sp) = shape0 (sheet st0) + k * s_h sp \<and>
                  shape1 (grown k (sheet st0) sp) = shape1 (sheet st0) + k * s_w sp \<and>
                  i < length (tls_to_try st0) \<and>
                  admits (grown k (sheet st0) sp) sp (tls_to_try st0 ! i) \<and>
                  (\<forall>m<i. \<not> admits (grown k (sheet st0) sp) sp (tls_to_try st0 ! m)) \<and>
                  find_tl (sheet st0) (tls_to_try st0) sp = Some (Inr (i, grown k (sheet st0) sp)) \<and>
                  place st0 sp i (grown k (sheet st0) sp) = Inr st1 \<and>
                  pack (xs @ [sp]) = Some (Inr st1) \<and>
                  last (placed st1) = sp\<lparr>s_tl := tls_to_try st0 ! i\<rparr> \<and>
                  placed st ! length xs = sp\<lparr>s_tl := tls_to_try st0 ! i\<rparr>))"
    using p order marked all by (intro conjI)
  show "\<exists>st. pack sps = Some (Inr st) \<and>
            list_all2 (\<lambda>sp p. \<exists>t. p = sp\<lparr>s_tl := t\<rparr>) sps (placed st) \<and>
            (\<forall>p\<in>set (placed st). \<forall>(x, y)\<in>footprint p.
               x < shape1 (sheet st) \<and> y < shape0 (sheet st) \<and> occ (sheet st) y x = 1) \<and>
            (\<forall>xs sp ys. sps = xs @ sp # ys \<longrightarrow>
               (\<exists>st0 i k st1.
                  pack xs = Some (Inr st0) \<and> k \<le> 2 \<and>
                  (\<forall>j<k. \<forall>c\<in>set (tls_to_try st0). \<not> admits (grown j (sheet st0) sp) sp c) \<and>
                  shape0 (grown k (sheet st0) sp) = shape0 (sheet st0) + k * s_h sp \<and>
                  shape1 (grown k (sheet st0) sp) = shape1 (sheet st0) + k * s_w sp \<and>
                  i < length (tls_to_try st0) \<and>
                  admits (grown k (sheet st0) sp) sp (tls_to_try st0 ! i) \<and>
                  (\<forall>m<i. \<not> admits (grown k (sheet st0) sp) sp (tls_to_try st0 ! m)) \<and>
                  find_tl (sheet st0) (tls_to_try st0) sp = Some (Inr (i, grown k (sheet st0) sp)) \<and>
                  place st0 sp i (grown k (sheet st0) sp) = Inr st1 \<and>
                  pack (xs @ [sp]) = Some (Inr st1) \<and>
                  last (placed st1) = sp\<lparr>s_tl := tls_to_try st0 ! i\<rparr> \<and>
                  placed st ! length xs = sp\<lparr>s_tl := tls_to_try st0 ! i\<rparr>))"
    by (rule exI [where x = st]) (rule final)
next
  fix sh tls sp
  assume h: "0 < s_w sp \<and> 0 < s_h sp \<and> (\<forall>c\<in>set tls. \<not> admits sh sp c)"
  then have "scan sh sp tls 0 = Inr None"
    using scan_positive [of sp sh tls 0] by simp
  then show "find_tl sh tls sp = find_tl (grow sh sp) tls sp"
    by (rule find_tl_grow)
  show "shape0 (grow sh sp) = shape0 sh + s_h sp" "shape1 (grow sh sp) = shape1 sh + s_w sp"
    by (simp_all add: grow_def)
qed

theorem packing_terminates_witness:
  "\<exists>st. pack [plain_sprite ''a'' 4 4, plain_sprite ''b'' 2 2] = Some (Inr st) \<and>
     list_all2 (\<lambda>sp p. \<exists>t. p = sp\<lparr>s_tl := t\<rparr>) [plain_sprite ''a'' 4 4, plain_sprite ''b'' 2 2] (placed st)"
proof -
  have "\<forall>sp\<in>set [plain_sprite ''a'' 4 4, plain_sprite ''b'' 2 2].
      0 < s_w sp \<and> 0 < s_h sp \<and> n_chan (s_image sp) = 4"
    by (simp add: plain_sprite_def s_w_def s_h_def zeros_def)
  from packing_terminates [OF this] show ?thesis
    by blast
qed

text \<open>
  A sheet of three channels, as \<open>cv2.imread\<close> returns for an image without alpha, gives
  sprites of three channels. The first one, of 6 by 6, passes the test at \<open>(0, 0)\<close> after two
  rounds of growth, the assignment of line 235 raises, and the sprite is not placed.
\<close>

theorem packing_terminates_counterexample:
  "(case process_files [file_of (zeros 10 10 3) [frame_of ''a'' ''sprite'' 1 1 4 4]]
            \<lparr>sprites = [], masks = []\<rparr> of
      Inl e \<Rightarrow> False
    | Inr ex \<Rightarrow>
        map (\<lambda>s. (s_w s, s_h s, n_chan (s_image s))) (concat (map snd (sprites ex))) = [(6, 6, 3)] \<and>
        layout (pack (concat (map snd (sprites ex)))) = None) \<and>
   run [file_of (zeros 10 10 3) [frame_of ''a'' ''sprite'' 1 1 4 4]] =
     Some (Inl (ValueError ''could not broadcast input array''))"
  by code_simp

subsection \<open>A bound on the size of the sheet\<close>

text \<open>
  Claim C8, as amended. The final sheet is at most twice as wide as the widths of all sprites
  together and at most twice as high as their heights together.
\<close>

theorem canvas_within_twice:
  assumes "pack sps = Some (Inr st)"
  shows "shape1 (sheet st) \<le> 2 * sum_list (map s_w sps) \<and>
         shape0 (sheet st) \<le> 2 * sum_list (map s_h sps)"
  using pack_inv [OF assms] same_sizes [of sps "placed st"]
  by (simp add: packer_inv_def within_twice_def)

theorem canvas_within_twice_witness:
  "\<exists>st. pack [plain_sprite ''s'' 1 1, plain_sprite ''t'' 5 5] = Some (Inr st) \<and>
     shape1 (sheet st) = 12 \<and> shape0 (sheet st) = 12 \<and>
     shape1 (sheet st) \<le> 2 * sum_list (map s_w [plain_sprite ''s'' 1 1, plain_sprite ''t'' 5 5]) \<and>
     shape0 (sheet st) \<le> 2 * sum_list (map s_h [plain_sprite ''s'' 1 1, plain_sprite ''t'' 5 5])"
proof -
  have "layout (pack [plain_sprite ''s'' 1 1, plain_sprite ''t'' 5 5]) =
      Some ((12, 12), [(''s'', 0, 0), (''t'', 0, 2)])"
    by code_simp
  from layout_Some [OF this] obtain st where
    p: "pack [plain_sprite ''s'' 1 1, plain_sprite ''t'' 5 5] = Some (Inr st)"
    and s: "shape1 (sheet st) = fst (12 :: nat, 12 :: nat)" "shape0 (sheet st) = snd (12 :: nat, 12 :: nat)"
    and "map (\<lambda>s. (s_name s, s_tl s)) (placed st) = [(''s'', 0, 0), (''t'', 0, 2)]"
    by (elim exE conjE) (rule that)
  from canvas_within_twice [OF p] p s show ?thesis
    by (intro exI [of _ st]) simp
qed

text \<open>
  The sum of the widths plus one pixel of gap for each placement is not a bound: one sprite of
  4 by 4 leaves a sheet of 8 by 8.
\<close>

theorem canvas_within_twice_counterexample:
  "layout (pack [plain_sprite ''s'' 4 4]) = Some ((8, 8), [(''s'', 0, 0)]) \<and>
   \<not> (8 :: nat) \<le> sum_list (map s_w [plain_sprite ''s'' 4 4]) + length [plain_sprite ''s'' 4 4] \<and>
   \<not> (8 :: nat) \<le> sum_list (map s_h [plain_sprite ''s'' 4 4]) + length [plain_sprite ''s'' 4 4]"
  by code_simp

end
